theory Spec2Isabelle
  imports Main
begin

section \<open>JavaScript values used by the extension\<close>

text \<open>
  The development embeds the second (more complete) variant of
  \<^verbatim>\<open>extension.js\<close>, class \<^verbatim>\<open>WMCtrlLikeExtension\<close>.

  Strings are \<^typ>\<open>string\<close>, read as ASCII text. Numbers that the code
  only ever uses as integers (window ids, sequence numbers, workspace indices,
  array positions) are \<^typ>\<open>nat\<close> or \<^typ>\<open>int\<close>; a JavaScript
  Number represents every integer below \<open>2 ^ 53\<close> exactly, and the model does
  not go beyond what is exact there.
\<close>

subsection \<open>Strings\<close>

text \<open>\<^verbatim>\<open>String.prototype.toLowerCase\<close>, on ASCII letters.\<close>

definition toLowerChar :: "char \<Rightarrow> char" where
  "toLowerChar c =
     (case map_of (zip ''ABCDEFGHIJKLMNOPQRSTUVWXYZ'' ''abcdefghijklmnopqrstuvwxyz'') c of
        Some l \<Rightarrow> l
      | None \<Rightarrow> c)"

definition toLowerCase :: "string \<Rightarrow> string" where
  "toLowerCase s = map toLowerChar s"

text \<open>The white space that \<^verbatim>\<open>trim\<close> and \<^verbatim>\<open>parseInt\<close> skip,
  among ASCII characters: tab, line feed, vertical tab, form feed, carriage
  return, space. ECMAScript also skips U+00A0, U+FEFF, the Unicode space
  separators and the line and paragraph separators; none of them occurs in
  ASCII text, and a statement that depends on what is skipped is made for
  ASCII input.\<close>

definition isWhiteSpace :: "char \<Rightarrow> bool" where
  "isWhiteSpace c \<longleftrightarrow> c \<in> set [CHR 0x09, CHR 0x0A, CHR 0x0B, CHR 0x0C, CHR 0x0D, CHR '' '']"

definition trim :: "string \<Rightarrow> string" where
  "trim s = rev (dropWhile isWhiteSpace (rev (dropWhile isWhiteSpace s)))"

text \<open>\<^verbatim>\<open>s.startsWith('0x')\<close> followed by \<^verbatim>\<open>s.slice(2)\<close>.\<close>

fun startsWith :: "string \<Rightarrow> string \<Rightarrow> bool" where
  "startsWith s [] = True"
| "startsWith [] (p # ps) = False"
| "startsWith (c # cs) (p # ps) = (c = p \<and> startsWith cs ps)"

text \<open>\<^verbatim>\<open>s.includes(p)\<close>: \<open>p\<close> occurs in \<open>s\<close> as a contiguous run.\<close>

fun includesStr :: "string \<Rightarrow> string \<Rightarrow> bool" where
  "includesStr [] p = (p = [])"
| "includesStr (c # cs) p = (startsWith (c # cs) p \<or> includesStr cs p)"

subsection \<open>Hexadecimal numerals\<close>

definition hexDigit :: "nat \<Rightarrow> char" where
  "hexDigit d = ''0123456789abcdef'' ! (d mod 16)"

text \<open>\<^verbatim>\<open>Number(n).toString(16)\<close> for a non-negative integer: lowercase
  digits, no leading zero, \<^verbatim>\<open>"0"\<close> for zero.\<close>

fun toHex :: "nat \<Rightarrow> string" where
  "toHex n = (if n < 16 then [hexDigit n] else toHex (n div 16) @ [hexDigit (n mod 16)])"

declare toHex.simps [simp del]

text \<open>\<^verbatim>\<open>n.toString(16)\<close> for any integer: a negative one prints a minus
  sign before the digits of its absolute value.\<close>

definition numToString16 :: "int \<Rightarrow> string" where
  "numToString16 n = (if n < 0 then CHR ''-'' # toHex (nat (- n)) else toHex (nat n))"

text \<open>The value of a radix-16 digit, either case; \<open>None\<close> for any other character.\<close>

definition hexVal :: "char \<Rightarrow> nat option" where
  "hexVal c =
     map_of (zip ''0123456789abcdefABCDEF''
       [0, 1, 2, 3, 4, 5, 6, 7, 8, 9, 10, 11, 12, 13, 14, 15, 10, 11, 12, 13, 14, 15]) c"

definition isHexDigit :: "char \<Rightarrow> bool" where
  "isHexDigit c \<longleftrightarrow> hexVal c \<noteq> None"

definition hexValue :: "string \<Rightarrow> nat" where
  "hexValue z = foldl (\<lambda>acc c. 16 * acc + (case hexVal c of Some d \<Rightarrow> d | None \<Rightarrow> 0)) 0 z"

text \<open>
  \<^verbatim>\<open>Number.parseInt(s, 16)\<close>, following ECMAScript: skip leading white
  space, take an optional sign, with radix 16 strip one \<^verbatim>\<open>0x\<close> or
  \<^verbatim>\<open>0X\<close>, then read the longest run of hexadecimal digits and ignore
  whatever follows it. \<open>None\<close> is \<^verbatim>\<open>NaN\<close>: the run was empty.

  The value returned here is the exact integer the digits denote. That is the
  Number \<^verbatim>\<open>parseInt\<close> returns as long as the integer is below
  \<open>2 ^ 53\<close>; from there on \<^verbatim>\<open>parseInt\<close> rounds to the nearest
  double (\<^verbatim>\<open>20000000000001\<close> reads as \<^verbatim>\<open>0x20000000000000\<close>), so
  a statement about the value read carries the bound \<open>2 ^ 53\<close>. Whether the
  result is \<^verbatim>\<open>NaN\<close> does not depend on the bound.
\<close>

definition signAndPrefixStripped :: "string \<Rightarrow> string" where
  "signAndPrefixStripped s =
     (let s1 = dropWhile isWhiteSpace s;
          s2 = (if startsWith s1 ''-'' \<or> startsWith s1 ''+'' then drop 1 s1 else s1)
      in if startsWith s2 ''0x'' \<or> startsWith s2 ''0X'' then drop 2 s2 else s2)"

definition parseInt16 :: "string \<Rightarrow> int option" where
  "parseInt16 s =
     (let neg = startsWith (dropWhile isWhiteSpace s) ''-'';
          z = takeWhile isHexDigit (signAndPrefixStripped s)
      in if z = [] then None
         else Some (if neg then - int (hexValue z) else int (hexValue z)))"

text \<open>\<^verbatim>\<open>Number(x) | 0\<close>: the integer wrapped into the signed 32-bit range.\<close>

definition toInt32 :: "int \<Rightarrow> int" where
  "toInt32 x = (x + 2 ^ 31) mod 2 ^ 32 - 2 ^ 31"

text \<open>\<^verbatim>\<open>a % n\<close> truncates towards zero: the result has the sign of \<open>a\<close>.
  \<open>wrapIndex\<close> is the code's \<^verbatim>\<open>let t = a % len; if (t < 0) t += len\<close>.\<close>

definition jsRem :: "int \<Rightarrow> int \<Rightarrow> int" where
  "jsRem a n = sgn a * (\<bar>a\<bar> mod \<bar>n\<bar>)"

definition wrapIndex :: "int \<Rightarrow> int \<Rightarrow> int" where
  "wrapIndex a len = (let t = jsRem a len in if t < 0 then t + len else t)"

text \<open>\<^verbatim>\<open>xs[i]\<close>: \<^verbatim>\<open>undefined\<close> (here \<open>None\<close>) out of range.\<close>

definition at :: "'a list \<Rightarrow> int \<Rightarrow> 'a option" where
  "at xs i = (if 0 \<le> i \<and> i < int (length xs) then Some (xs ! nat i) else None)"

text \<open>\<^verbatim>\<open>xs.findIndex(p)\<close>: \<open>None\<close> is the \<^verbatim>\<open>-1\<close> of no match.\<close>

fun findIndex :: "('a \<Rightarrow> bool) \<Rightarrow> 'a list \<Rightarrow> nat option" where
  "findIndex p [] = None"
| "findIndex p (x # xs) =
     (if p x then Some 0 else map_option Suc (findIndex p xs))"

text \<open>A value is truthy when it is neither \<^verbatim>\<open>null\<close> nor the empty string.\<close>

definition truthy :: "string option \<Rightarrow> string option" where
  "truthy v = (case v of Some s \<Rightarrow> if s = [] then None else Some s | None \<Rightarrow> None)"

text \<open>An exception that leaves a function.\<close>

datatype js_error = Thrown

section \<open>The window system as the extension reads it\<close>

text \<open>
  The code probes every collaborator method before calling it
  (\<^verbatim>\<open>typeof w.f === 'function'\<close>) and wraps the call in
  \<^verbatim>\<open>try\<close>. A method is therefore absent, or raises when called, or
  returns a value.
\<close>

datatype 'a probe = Absent | Raises | Returns 'a

datatype window_type = NORMAL | DESKTOP | DOCK | OTHER_TYPE

text \<open>What \<^verbatim>\<open>Shell.WindowTracker.get_default().get_window_app(w)\<close> gives:
  the lookup raises, finds no application, or finds one with an id.\<close>

datatype app_lookup = LookupRaises | NoApp | App string

text \<open>A workspace object: its identity, \<^verbatim>\<open>ws.index()\<close> and
  \<^verbatim>\<open>ws.activate(t)\<close>.\<close>

record workspace =
  ws_handle :: nat
  index :: "int probe"
  ws_activate :: "unit probe"

text \<open>
  A \<^verbatim>\<open>Meta.Window\<close>. \<open>handle\<close> is the identity of the object. A method
  that may return \<^verbatim>\<open>null\<close> returns an \<open>option\<close>. \<open>hash\<close> is
  \<open>None\<close> when \<^verbatim>\<open>w.hash()\<close> raises, and \<open>get_title\<close> is \<open>None\<close>
  when \<^verbatim>\<open>w.get_title()\<close> raises. \<open>get_frame_rect\<close> returns the
  rectangle's \<open>(x, y)\<close> when both are numbers.
\<close>

record meta_window =
  handle :: nat
  get_xwindow :: "nat probe"
  get_stable_sequence :: "nat probe"
  get_id :: "nat probe"
  hash :: "int option"
  get_wm_class_instance :: "string option probe"
  get_wm_class :: "string option probe"
  get_window_app :: app_lookup
  is_on_all_workspaces :: "bool probe"
  get_workspace :: "workspace option probe"
  get_title :: "string option option"
  skip_taskbar :: bool
  get_window_type :: "window_type probe"
  minimized :: bool
  unminimize :: "unit probe"
  activate :: "unit probe"
  activate_full :: "unit probe"
  get_frame_rect :: "(int \<times> int) option probe"
  move_resize_frame :: "unit probe"

text \<open>
  What the extension reads from its host: \<^verbatim>\<open>global\<close>, the clock and the
  string collation.
  \<^item> \<open>get_window_actors\<close> is \<open>None\<close> when \<^verbatim>\<open>global.get_window_actors()\<close>
    raises; an actor's \<^verbatim>\<open>meta_window\<close> may be \<^verbatim>\<open>null\<close>.
  \<^item> \<open>get_active_workspace\<close> stands for the method of
    \<^verbatim>\<open>global.workspace_manager\<close> or else of \<^verbatim>\<open>global.screen\<close>,
    whichever the code finds.
  \<^item> \<open>get_focus_window\<close> is the method of \<^verbatim>\<open>global.display\<close> and
    \<open>focus_window\<close> its property of that name.
  \<^item> \<open>get_monitor_geometry\<close> is the width and height that
    \<^verbatim>\<open>global.display.get_monitor_geometry(global.display.get_current_monitor())\<close>
    gives, \<open>None\<close> when one of the two calls raises.
  \<^item> \<open>spawn_command_line_async\<close> is the call of that name of GLib, \<open>None\<close>
    when it raises.
  \<^item> \<open>date_now\<close> is the reading of \<^verbatim>\<open>Date.now()\<close>: one reading
    for a whole operation, although the code reads the clock again at each
    window that needs it.
  \<^item> \<open>localeCompare\<close> is \<^verbatim>\<open>String.prototype.localeCompare\<close>, the
    collation of the host's locale: negative, zero or positive.
\<close>

record shell =
  get_window_actors :: "meta_window option list option"
  get_active_workspace :: "workspace option probe"
  get_focus_window :: "meta_window option probe"
  focus_window :: "meta_window option"
  display_activate_workspace :: "unit probe"
  get_monitor_geometry :: "(int \<times> int) option"
  spawn_command_line_async :: "string \<Rightarrow> unit option"
  date_now :: nat
  localeCompare :: "string \<Rightarrow> string \<Rightarrow> int"

text \<open>What an operation asks the window system to do, in the order of the calls.
  A window is named by its \<open>handle\<close>, a workspace by its \<open>ws_handle\<close>.\<close>

datatype effect =
    WorkspaceActivate nat
  | DisplayActivateWorkspace nat
  | Unminimize nat
  | Activate nat
  | ActivateFull nat
  | MoveResizeFrame nat bool int int int int

section \<open>Window identity\<close>

text \<open>\<^verbatim>\<open>_toHexId(w)\<close>. The last fallback reads the clock when
  \<^verbatim>\<open>w.hash()\<close> raises.\<close>

definition toHexId :: "shell \<Rightarrow> meta_window \<Rightarrow> string" where
  "toHexId sh w =
     (case (case get_xwindow w of
              Returns xid \<Rightarrow> if xid \<noteq> 0 then Some xid else None
            | _ \<Rightarrow> None) of
        Some xid \<Rightarrow> ''0x'' @ toHex xid
      | None \<Rightarrow>
          (let seq = (case get_stable_sequence w of
                        Returns s \<Rightarrow> s
                      | Raises \<Rightarrow> 0
                      | Absent \<Rightarrow> (case get_id w of Returns s \<Rightarrow> s | _ \<Rightarrow> 0));
               seq' = (if seq = 0
                       then (case hash w of Some h \<Rightarrow> nat \<bar>h\<bar> | None \<Rightarrow> date_now sh)
                       else seq)
           in ''0x'' @ toHex seq'))"

text \<open>\<^verbatim>\<open>_classInstance(w)\<close>.\<close>

definition classInstance :: "meta_window \<Rightarrow> string" where
  "classInstance w =
     (let inst0 = (case get_wm_class_instance w of Returns v \<Rightarrow> v | _ \<Rightarrow> None);
          cls0 = (case get_wm_class w of Returns v \<Rightarrow> v | _ \<Rightarrow> None);
          fromApp = (\<lambda>v. if truthy inst0 = None \<or> truthy cls0 = None
                        then (case get_window_app w of
                                App appId \<Rightarrow> if truthy v = None then Some appId else v
                              | _ \<Rightarrow> v)
                        else v);
          inst = (case truthy (fromApp inst0) of Some i \<Rightarrow> i | None \<Rightarrow> ''unknown'');
          cls = (case truthy (fromApp cls0) of Some c \<Rightarrow> c | None \<Rightarrow> ''unknown'')
      in toLowerCase inst @ ''.'' @ toLowerCase cls)"

text \<open>\<^verbatim>\<open>_creationOrderKey(w)\<close>.\<close>

definition creationOrderKey :: "shell \<Rightarrow> meta_window \<Rightarrow> int" where
  "creationOrderKey sh w =
     (case (case get_stable_sequence w of
              Returns k \<Rightarrow> if k > 0 then Some k else None
            | _ \<Rightarrow> None) of
        Some k \<Rightarrow> int k
      | None \<Rightarrow>
          (case (case get_id w of
                   Returns k \<Rightarrow> if k > 0 then Some k else None
                 | _ \<Rightarrow> None) of
             Some k \<Rightarrow> int k
           | None \<Rightarrow>
               (let hex = toHexId sh w;
                    s = (if startsWith hex ''0x'' then drop 2 hex else hex)
                in case parseInt16 s of Some n \<Rightarrow> n | None \<Rightarrow> 0)))"

text \<open>\<^verbatim>\<open>_workspaceIndex(w)\<close>.\<close>

definition workspaceIndex :: "meta_window \<Rightarrow> int" where
  "workspaceIndex w =
     (if is_on_all_workspaces w = Returns True then - 1
      else case get_workspace w of
             Returns (Some ws) \<Rightarrow> (case index ws of Returns i \<Rightarrow> i | _ \<Rightarrow> 0)
           | _ \<Rightarrow> 0)"

text \<open>\<^verbatim>\<open>_activeWorkspaceIndex()\<close>.\<close>

definition activeWorkspaceIndex :: "shell \<Rightarrow> int" where
  "activeWorkspaceIndex sh =
     (case get_active_workspace sh of
        Returns (Some ws) \<Rightarrow> (case index ws of Returns i \<Rightarrow> i | _ \<Rightarrow> 0)
      | _ \<Rightarrow> 0)"

text \<open>\<^verbatim>\<open>_activeWindowId()\<close>: the id of the focus window, or the empty
  string.\<close>

definition activeWindowId :: "shell \<Rightarrow> string" where
  "activeWindowId sh =
     (let w = (case get_focus_window sh of Returns v \<Rightarrow> v | _ \<Rightarrow> None);
          w' = (case w of None \<Rightarrow> focus_window sh | Some v \<Rightarrow> Some v)
      in case w' of None \<Rightarrow> [] | Some v \<Rightarrow> toHexId sh v)"

text \<open>\<^verbatim>\<open>_isTasklistWindow(w)\<close>.\<close>

definition isTasklistWindow :: "meta_window \<Rightarrow> bool" where
  "isTasklistWindow w =
     (if skip_taskbar w then False
      else case get_window_type w of
             Returns wt \<Rightarrow> \<not> (wt = DESKTOP \<or> wt = DOCK)
           | _ \<Rightarrow> True)"

section \<open>The window registry\<close>

text \<open>One entry of \<^verbatim>\<open>_listWindowsItems()\<close>; \<open>ident\<close> is its
  \<^verbatim>\<open>id\<close>.\<close>

record item =
  key :: int
  ident :: string
  desk :: int
  cls :: string
  title :: string

text \<open>The comparison function handed to \<^verbatim>\<open>items.sort\<close>.\<close>

definition compareItems :: "(string \<Rightarrow> string \<Rightarrow> int) \<Rightarrow> item \<Rightarrow> item \<Rightarrow> int" where
  "compareItems lc a b =
     (if key a \<noteq> key b then key a - key b
      else if desk a \<noteq> desk b then desk a - desk b
      else let cmpCls = lc (cls a) (cls b) in
        if cmpCls \<noteq> 0 then cmpCls
        else let cmpTitle = lc (title a) (title b) in
          if cmpTitle \<noteq> 0 then cmpTitle
          else lc (ident a) (ident b))"

text \<open>
  \<^verbatim>\<open>Array.prototype.sort(cmp)\<close> is stable: elements that compare equal
  keep their order. It is modelled as the stable insertion sort, which places
  \<open>x\<close> before the first \<open>y\<close> with \<open>cmp x y \<le> 0\<close>.
\<close>

fun insertBy :: "('a \<Rightarrow> 'a \<Rightarrow> int) \<Rightarrow> 'a \<Rightarrow> 'a list \<Rightarrow> 'a list" where
  "insertBy cmp x [] = [x]"
| "insertBy cmp x (y # ys) = (if cmp x y \<le> 0 then x # y # ys else y # insertBy cmp x ys)"

fun sortBy :: "('a \<Rightarrow> 'a \<Rightarrow> int) \<Rightarrow> 'a list \<Rightarrow> 'a list" where
  "sortBy cmp [] = []"
| "sortBy cmp (x # xs) = insertBy cmp x (sortBy cmp xs)"

text \<open>The entry built for one eligible window in the loop of
  \<^verbatim>\<open>_listWindowsItems()\<close>.\<close>

definition itemOf :: "shell \<Rightarrow> meta_window \<Rightarrow> item" where
  "itemOf sh w =
     \<lparr> key = creationOrderKey sh w,
       ident = toHexId sh w,
       desk = workspaceIndex w,
       cls = classInstance w,
       title = (case get_title w of Some (Some t) \<Rightarrow> t | _ \<Rightarrow> []) \<rparr>"

text \<open>The actors that pass the two \<^verbatim>\<open>continue\<close> tests: a window is
  there and it is a tasklist window.\<close>

fun eligible :: "meta_window option list \<Rightarrow> meta_window list" where
  "eligible [] = []"
| "eligible (None # actors) = eligible actors"
| "eligible (Some w # actors) =
     (if isTasklistWindow w then w # eligible actors else eligible actors)"

text \<open>\<^verbatim>\<open>_listWindowsItems()\<close>. It has no \<^verbatim>\<open>try\<close> of its own: when
  \<^verbatim>\<open>global.get_window_actors()\<close> raises, so does it.\<close>

definition listWindowsItems :: "shell \<Rightarrow> js_error + item list" where
  "listWindowsItems sh =
     (case get_window_actors sh of
        None \<Rightarrow> Inl Thrown
      | Some actors \<Rightarrow>
          Inr (sortBy (compareItems (localeCompare sh)) (map (itemOf sh) (eligible actors))))"

text \<open>\<^verbatim>\<open>_normalizeIdString(id)\<close>; \<open>None\<close> is the \<^verbatim>\<open>null\<close> it
  returns when \<^verbatim>\<open>parseInt\<close> gives \<^verbatim>\<open>NaN\<close>.\<close>

definition normalizeIdString :: "string \<Rightarrow> string option" where
  "normalizeIdString ident0 =
     (let s = toLowerCase (trim ident0);
          s' = (if startsWith s ''0x'' then drop 2 s else s)
      in case parseInt16 s' of
           None \<Rightarrow> None
         | Some n \<Rightarrow> Some (''0x'' @ numToString16 n))"

text \<open>\<^verbatim>\<open>_findWindowById(id)\<close>: the first tasklist window, in the order of
  the actors, whose id is the normalised one. It raises when the enumeration
  does.\<close>

definition findWindowById :: "shell \<Rightarrow> string \<Rightarrow> js_error + meta_window option" where
  "findWindowById sh ident0 =
     (case normalizeIdString ident0 of
        None \<Rightarrow> Inr None
      | Some norm \<Rightarrow>
          (case get_window_actors sh of
             None \<Rightarrow> Inl Thrown
           | Some actors \<Rightarrow>
               Inr (find (\<lambda>w. toLowerCase (toHexId sh w) = norm) (eligible actors))))"

section \<open>Window control operations\<close>

text \<open>
  An operation returns its result and the calls it made on the window system.
  A call that raises was still made, so it is listed.
\<close>

type_synonym 'a outcome = "'a \<times> effect list"

text \<open>The block of \<^verbatim>\<open>_activateWindowById\<close> that switches to the window's
  workspace first. Any exception inside it is swallowed.\<close>

definition switchToWorkspaceOf :: "shell \<Rightarrow> meta_window \<Rightarrow> effect list" where
  "switchToWorkspaceOf sh w =
     (case is_on_all_workspaces w of
        Raises \<Rightarrow> []
      | sticky \<Rightarrow>
          (case (case get_workspace w of Absent \<Rightarrow> Returns None | r \<Rightarrow> r) of
             Returns (Some ws) \<Rightarrow>
               if sticky = Returns True then []
               else
                 (let activeWs = (case get_active_workspace sh of Returns v \<Rightarrow> v | _ \<Rightarrow> None);
                      needSwitch =
                        (case activeWs of
                           None \<Rightarrow> True
                         | Some aws \<Rightarrow>
                             if index aws \<noteq> Absent \<and> index ws \<noteq> Absent
                             then (case (index aws, index ws) of
                                     (Returns a, Returns b) \<Rightarrow> a \<noteq> b
                                   | _ \<Rightarrow> False)
                             else ws_handle aws \<noteq> ws_handle ws)
                  in if needSwitch
                     then (if ws_activate ws \<noteq> Absent then [WorkspaceActivate (ws_handle ws)]
                           else if display_activate_workspace sh \<noteq> Absent
                           then [DisplayActivateWorkspace (ws_handle ws)]
                           else [])
                     else [])
           | _ \<Rightarrow> []))"

text \<open>\<^verbatim>\<open>if (typeof w.unminimize === 'function' && w.minimized) w.unminimize()\<close>.\<close>

definition ensureUnminimized :: "meta_window \<Rightarrow> effect list" where
  "ensureUnminimized w =
     (if unminimize w \<noteq> Absent \<and> minimized w then [Unminimize (handle w)] else [])"

text \<open>\<^verbatim>\<open>_activateWindowById(id)\<close>. The event timestamp that the calls
  carry has no part in what is called, and is left out.\<close>

definition activateWindowById :: "shell \<Rightarrow> string \<Rightarrow> bool outcome" where
  "activateWindowById sh ident0 =
     (case findWindowById sh ident0 of
        Inl e \<Rightarrow> (False, [])
      | Inr None \<Rightarrow> (False, [])
      | Inr (Some w) \<Rightarrow>
          (let before = switchToWorkspaceOf sh w @ ensureUnminimized w in
           case activate w of
             Returns u \<Rightarrow> (True, before @ [Activate (handle w)])
           | Raises \<Rightarrow> (False, before @ [Activate (handle w)])
           | Absent \<Rightarrow>
               (case activate_full w of
                  Returns u \<Rightarrow> (True, before @ [ActivateFull (handle w)])
                | Raises \<Rightarrow> (False, before @ [ActivateFull (handle w)])
                | Absent \<Rightarrow> (False, before))))"

text \<open>\<^verbatim>\<open>_resizeWindowById(id, width, height)\<close>.\<close>

definition resizeWindowById :: "shell \<Rightarrow> string \<Rightarrow> int \<Rightarrow> int \<Rightarrow> bool outcome" where
  "resizeWindowById sh ident0 width height =
     (case findWindowById sh ident0 of
        Inl e \<Rightarrow> (False, [])
      | Inr None \<Rightarrow> (False, [])
      | Inr (Some w) \<Rightarrow>
          (let ww = toInt32 width; hh = toInt32 height in
           if \<not> (ww > 0 \<and> hh > 0) then (False, [])
           else
             (let rect = (case get_frame_rect w of Returns r \<Rightarrow> r | _ \<Rightarrow> None);
                  (x, y) = (case rect of Some (rx, ry) \<Rightarrow> (rx, ry) | None \<Rightarrow> (0, 0));
                  before = ensureUnminimized w
              in case move_resize_frame w of
                   Returns u \<Rightarrow> (True, before @ [MoveResizeFrame (handle w) True x y ww hh])
                 | Raises \<Rightarrow> (False, before @ [MoveResizeFrame (handle w) True x y ww hh])
                 | Absent \<Rightarrow> (False, before))))"

section \<open>The focus-cycle engine\<close>

text \<open>The test \<^verbatim>\<open>String(it.id).toLowerCase() === String(activeId).toLowerCase()\<close>.\<close>

definition hasId :: "string \<Rightarrow> item \<Rightarrow> bool" where
  "hasId activeId it \<longleftrightarrow> toLowerCase (ident it) = toLowerCase activeId"

text \<open>The test \<^verbatim>\<open>it.desk === wsIdx || it.desk === -1\<close>.\<close>

definition onWorkspace :: "int \<Rightarrow> item \<Rightarrow> bool" where
  "onWorkspace wsIdx it \<longleftrightarrow> desk it = wsIdx \<or> desk it = - 1"

text \<open>The position the walk starts from: \<^verbatim>\<open>findIndex\<close>, and when that
  gives \<^verbatim>\<open>-1\<close>, \<^verbatim>\<open>(delta > 0) ? -1 : 0\<close>.\<close>

definition startIndex :: "string \<Rightarrow> int \<Rightarrow> item list \<Rightarrow> int" where
  "startIndex activeId delta items =
     (case findIndex (hasId activeId) items of
        Some i \<Rightarrow> int i
      | None \<Rightarrow> if delta > 0 then - 1 else 0)"

text \<open>\<^verbatim>\<open>_focusRelativeSameAppWindow(delta)\<close>.\<close>

definition focusRelativeSameAppWindow :: "shell \<Rightarrow> int \<Rightarrow> bool outcome" where
  "focusRelativeSameAppWindow sh delta =
     (let wsIdx = activeWorkspaceIndex sh;
          activeId = activeWindowId sh
      in if activeId = [] then (False, [])
         else case findWindowById sh activeId of
           Inl e \<Rightarrow> (False, [])
         | Inr activeWin \<Rightarrow>
            (case listWindowsItems sh of
               Inl e \<Rightarrow> (False, [])
             | Inr all \<Rightarrow>
                 if all = [] then (False, [])
                 else
                   (case (case truthy (map_option classInstance activeWin) of
                            Some c \<Rightarrow> Some c
                          | None \<Rightarrow> map_option cls (find (hasId activeId) all)) of
                      None \<Rightarrow> (False, [])
                    | Some activeCls \<Rightarrow>
                        (let items = filter (\<lambda>it. cls it = activeCls \<and> onWorkspace wsIdx it) all
                         in if items = [] then (False, [])
                            else
                              (let idx = startIndex activeId delta items;
                                   len = int (length items);
                                   targetIndex = (if len = 1 then 0
                                                  else wrapIndex (idx + delta) len)
                               in case at items targetIndex of
                                    None \<Rightarrow> (False, [])
                                  | Some target \<Rightarrow> activateWindowById sh (ident target))))))"

definition focusNextSameAppWindow :: "shell \<Rightarrow> bool outcome" where
  "focusNextSameAppWindow sh = focusRelativeSameAppWindow sh 1"

definition focusPrevSameAppWindow :: "shell \<Rightarrow> bool outcome" where
  "focusPrevSameAppWindow sh = focusRelativeSameAppWindow sh (- 1)"

definition COPYQ_CLS :: string where
  "COPYQ_CLS = ''copyq.copyq''"

text \<open>
  The loop \<^verbatim>\<open>for (let step = 1; step <= len; step++)\<close> shared by the
  other-class and any-class policies: \<open>skip\<close> holds of the candidates the
  loop passes over with \<^verbatim>\<open>continue\<close>, and the first candidate it does not
  skip is returned. \<open>n\<close> counts the steps still to take, \<open>step = len + 1 - n\<close>.
\<close>

fun scan :: "(item \<Rightarrow> bool) \<Rightarrow> item list \<Rightarrow> int \<Rightarrow> int \<Rightarrow> int \<Rightarrow> nat \<Rightarrow> item option" where
  "scan skip inWs idx delta step 0 = None"
| "scan skip inWs idx delta step (Suc n) =
     (case at inWs (wrapIndex (idx + delta * step) (int (length inWs))) of
        None \<Rightarrow> scan skip inWs idx delta (step + 1) n
      | Some cand \<Rightarrow>
          if skip cand then scan skip inWs idx delta (step + 1) n
          else Some cand)"

text \<open>\<^verbatim>\<open>_focusRelativeOtherAppWindow(delta)\<close>.\<close>

definition focusRelativeOtherAppWindow :: "shell \<Rightarrow> int \<Rightarrow> bool outcome" where
  "focusRelativeOtherAppWindow sh delta =
     (let wsIdx = activeWorkspaceIndex sh;
          activeId = activeWindowId sh
      in if activeId = [] then (False, [])
         else case listWindowsItems sh of
           Inl e \<Rightarrow> (False, [])
         | Inr all \<Rightarrow>
             if all = [] then (False, [])
             else
               (case (case find (hasId activeId) all of
                        Some activeFound \<Rightarrow> Inr (Some (cls activeFound))
                      | None \<Rightarrow> map_sum id (map_option classInstance)
                                  (findWindowById sh activeId)) of
                  Inl e \<Rightarrow> (False, [])
                | Inr None \<Rightarrow> (False, [])
                | Inr (Some activeCls) \<Rightarrow>
                    (let inWs = filter (onWorkspace wsIdx) all
                     in if inWs = [] then (False, [])
                        else
                          (let idx = startIndex activeId delta inWs;
                               len = length inWs
                           in if len = 1
                              then (case at inWs 0 of
                                      Some only \<Rightarrow>
                                        if cls only \<noteq> activeCls \<and> cls only \<noteq> COPYQ_CLS
                                        then activateWindowById sh (ident only)
                                        else (False, [])
                                    | None \<Rightarrow> (False, []))
                              else
                                (case scan (\<lambda>cand. cls cand = COPYQ_CLS \<or> cls cand = activeCls)
                                        inWs idx delta 1 len of
                                   Some cand \<Rightarrow> activateWindowById sh (ident cand)
                                 | None \<Rightarrow> (False, []))))))"

definition focusNextOtherAppWindow :: "shell \<Rightarrow> bool outcome" where
  "focusNextOtherAppWindow sh = focusRelativeOtherAppWindow sh 1"

definition focusPrevOtherAppWindow :: "shell \<Rightarrow> bool outcome" where
  "focusPrevOtherAppWindow sh = focusRelativeOtherAppWindow sh (- 1)"

text \<open>\<^verbatim>\<open>_focusRelativeAnyAppWindow(delta)\<close>.\<close>

definition focusRelativeAnyAppWindow :: "shell \<Rightarrow> int \<Rightarrow> bool outcome" where
  "focusRelativeAnyAppWindow sh delta =
     (let wsIdx = activeWorkspaceIndex sh;
          activeId = activeWindowId sh
      in if activeId = [] then (False, [])
         else case listWindowsItems sh of
           Inl e \<Rightarrow> (False, [])
         | Inr all \<Rightarrow>
             if all = [] then (False, [])
             else
               (let inWs = filter (onWorkspace wsIdx) all
                in if inWs = [] then (False, [])
                   else
                     (let idx = startIndex activeId delta inWs;
                          len = length inWs
                      in case scan (\<lambda>cand. cls cand = COPYQ_CLS \<or> hasId activeId cand)
                              inWs idx delta 1 len of
                           Some cand \<Rightarrow> activateWindowById sh (ident cand)
                         | None \<Rightarrow> (False, []))))"

definition focusNextAnyAppWindow :: "shell \<Rightarrow> bool outcome" where
  "focusNextAnyAppWindow sh = focusRelativeAnyAppWindow sh 1"

definition focusPrevAnyAppWindow :: "shell \<Rightarrow> bool outcome" where
  "focusPrevAnyAppWindow sh = focusRelativeAnyAppWindow sh (- 1)"

section \<open>The launch tracker\<close>

text \<open>
  \<^verbatim>\<open>_launchHere(path, appId)\<close> returns at once and leaves behind a
  subscription to \<^verbatim>\<open>window-created\<close> and a 10-second timer; their callbacks
  run later, one at a time, on the host's event loop. The watch is the state
  those callbacks share:
  \<^item> \<open>maxKey\<close>, \<open>path\<close>, \<open>appId\<close>: the values the closures captured;
  \<^item> \<open>handlerConnected\<close>: the \<^verbatim>\<open>window-created\<close> subscription
    \<^verbatim>\<open>handlerId\<close> is connected;
  \<^item> \<open>timeoutPending\<close>: the 10-second timer \<^verbatim>\<open>timeoutId\<close> has not fired
    and was not removed;
  \<^item> \<open>notifyConnected\<close>: the connected \<^verbatim>\<open>notify::wm-class\<close>
    subscriptions, each a \<^verbatim>\<open>notifyId\<close> with the handle of its window;
  \<^item> \<open>subTimeouts\<close>: the pending 5-second timers, each named by the
    \<^verbatim>\<open>notifyId\<close> it will disconnect;
  \<^item> \<open>resizeTimeouts\<close>: the pending 100-millisecond resize timers, each
    named by the handle of its window;
  \<^item> \<open>nextId\<close>: the next unused \<^verbatim>\<open>notifyId\<close>;
  \<^item> \<open>performed\<close>: the windows \<^verbatim>\<open>performActions\<close> was called on, that
    is, the windows treated as the launched one, the latest last.
\<close>

record launch_watch =
  maxKey :: int
  path :: string
  appId :: string
  handlerConnected :: bool
  timeoutPending :: bool
  notifyConnected :: "(nat \<times> nat) list"
  subTimeouts :: "nat list"
  resizeTimeouts :: "nat list"
  nextId :: nat
  performed :: "nat list"

text \<open>\<^verbatim>\<open>Math.max(...currentItems.map(it => it.key))\<close>, and 0 for no items.\<close>

definition maxKeyOf :: "item list \<Rightarrow> int" where
  "maxKeyOf currentItems =
     (case map key currentItems of [] \<Rightarrow> 0 | k # ks \<Rightarrow> foldl max k ks)"

text \<open>
  \<^verbatim>\<open>_launchHere(path, appId)\<close>. The snapshot is taken outside any
  \<^verbatim>\<open>try\<close>, so an exception of the enumeration leaves the function; only
  the spawn is guarded. Connecting the signal and starting the timer are taken
  to succeed. The result is the boolean and, when the spawn succeeded, the
  watch that was set up.
\<close>

definition launchHere :: "shell \<Rightarrow> string \<Rightarrow> string \<Rightarrow> js_error + bool \<times> launch_watch option" where
  "launchHere sh path0 appId0 =
     (case listWindowsItems sh of
        Inl e \<Rightarrow> Inl e
      | Inr currentItems \<Rightarrow>
          (case spawn_command_line_async sh path0 of
             None \<Rightarrow> Inr (False, None)
           | Some u \<Rightarrow>
               Inr (True,
                    Some \<lparr> maxKey = maxKeyOf currentItems,
                           path = path0,
                           appId = appId0,
                           handlerConnected = True,
                           timeoutPending = True,
                           notifyConnected = [],
                           subTimeouts = [],
                           resizeTimeouts = [],
                           nextId = 0,
                           performed = [] \<rparr>)))"

text \<open>
  \<^verbatim>\<open>performActions(win)\<close>. It moves and activates the window through
  \<^verbatim>\<open>_moveWindowToWorkspaceById\<close> and \<^verbatim>\<open>_activateWindowById\<close>, which
  never raise; for the kitty path it then reads the monitor geometry, which
  may raise, and starts a resize timer. The result is the exception, or the
  resize timers it started.
\<close>

definition performActions :: "shell \<Rightarrow> string \<Rightarrow> meta_window \<Rightarrow> js_error + nat list" where
  "performActions sh path0 win =
     (if includesStr path0 ''/opt/kitty/linux-package/bin/kitty''
      then (case get_monitor_geometry sh of
              None \<Rightarrow> Inl Thrown
            | Some geometry \<Rightarrow> Inr [handle win])
      else Inr [])"

text \<open>
  A callback that found its match: \<^verbatim>\<open>performActions(win)\<close> and then the
  releases that follow it in the callback, \<open>cleanup\<close>. When
  \<^verbatim>\<open>performActions\<close> raises, the callback ends there and the releases are
  not reached.
\<close>

definition onMatch ::
    "shell \<Rightarrow> meta_window \<Rightarrow> (launch_watch \<Rightarrow> launch_watch) \<Rightarrow> launch_watch \<Rightarrow> launch_watch" where
  "onMatch sh win cleanup lw =
     (let lw' = lw \<lparr> performed := performed lw @ [handle win] \<rparr>
      in case performActions sh (path lw) win of
           Inl e \<Rightarrow> lw'
         | Inr timers \<Rightarrow> cleanup (lw' \<lparr> resizeTimeouts := resizeTimeouts lw' @ timers \<rparr>))"

text \<open>\<^verbatim>\<open>win.disconnect(notifyId)\<close>.\<close>

definition disconnectNotify :: "nat \<Rightarrow> launch_watch \<Rightarrow> launch_watch" where
  "disconnectNotify n lw =
     lw \<lparr> notifyConnected := filter (\<lambda>(m, h). m \<noteq> n) (notifyConnected lw) \<rparr>"

text \<open>The callback of \<^verbatim>\<open>window-created\<close>.\<close>

definition onWindowCreated :: "shell \<Rightarrow> meta_window \<Rightarrow> launch_watch \<Rightarrow> launch_watch" where
  "onWindowCreated sh win lw =
     (let winCls = classInstance win;
          winKey = creationOrderKey sh win
      in if winCls = toLowerCase (appId lw) \<and> winKey > maxKey lw
         then onMatch sh win
                (\<lambda>s. s \<lparr> handlerConnected := False, timeoutPending := False \<rparr>) lw
         else if winKey > maxKey lw
         then lw \<lparr> notifyConnected := notifyConnected lw @ [(nextId lw, handle win)],
                   subTimeouts := subTimeouts lw @ [nextId lw],
                   nextId := Suc (nextId lw) \<rparr>
         else lw)"

text \<open>The callback of the \<^verbatim>\<open>notify::wm-class\<close> subscription \<open>n\<close>.\<close>

definition onWmClass :: "shell \<Rightarrow> meta_window \<Rightarrow> nat \<Rightarrow> launch_watch \<Rightarrow> launch_watch" where
  "onWmClass sh win n lw =
     (let newCls = classInstance win
      in if newCls = toLowerCase (appId lw)
         then onMatch sh win
                (\<lambda>s. (disconnectNotify n (s \<lparr> handlerConnected := False \<rparr>))
                        \<lparr> timeoutPending := False \<rparr>) lw
         else lw)"

text \<open>
  What the event loop delivers. A window comes with what it answers at that
  moment, and the shell with what it answers then.
  \<^item> \<open>WindowCreated sh win\<close>: the display emits \<^verbatim>\<open>window-created\<close>.
  \<^item> \<open>WmClassChanged sh win\<close>: the window emits \<^verbatim>\<open>notify::wm-class\<close>.
  \<^item> \<open>SubTimeout n\<close>: the 5-second timer of subscription \<open>n\<close> fires.
  \<^item> \<open>OuterTimeout\<close>: the 10-second timer fires.
  \<^item> \<open>ResizeTimeout h\<close>: the resize timer of window \<open>h\<close> fires.
\<close>

datatype event =
    WindowCreated shell meta_window
  | WmClassChanged shell meta_window
  | SubTimeout nat
  | OuterTimeout
  | ResizeTimeout nat

text \<open>
  One turn of the event loop. A signal reaches only the subscriptions that
  are connected, a timer fires only while it is pending, and a timer that has
  fired is gone (\<^verbatim>\<open>GLib.SOURCE_REMOVE\<close>).
\<close>

fun deliver :: "launch_watch \<Rightarrow> event \<Rightarrow> launch_watch" where
  "deliver lw (WindowCreated sh win) =
     (if handlerConnected lw then onWindowCreated sh win lw else lw)"
| "deliver lw (WmClassChanged sh win) =
     foldl (\<lambda>s n. if n \<in> set (map fst (notifyConnected s)) then onWmClass sh win n s else s)
       lw (map fst (filter (\<lambda>(n, h). h = handle win) (notifyConnected lw)))"
| "deliver lw (SubTimeout n) =
     (if n \<in> set (subTimeouts lw)
      then (disconnectNotify n lw) \<lparr> subTimeouts := removeAll n (subTimeouts lw) \<rparr>
      else lw)"
| "deliver lw OuterTimeout =
     (if timeoutPending lw
      then lw \<lparr> handlerConnected := False, timeoutPending := False \<rparr>
      else lw)"
| "deliver lw (ResizeTimeout h) =
     (if h \<in> set (resizeTimeouts lw)
      then lw \<lparr> resizeTimeouts := remove1 h (resizeTimeouts lw) \<rparr>
      else lw)"

text \<open>The watch after a sequence of events.\<close>

definition runEvents :: "launch_watch \<Rightarrow> event list \<Rightarrow> launch_watch" where
  "runEvents lw evs = foldl deliver lw evs"

text \<open>Every timer of the watch that is still pending, as the events of their
  firing.\<close>

definition pendingTimers :: "launch_watch \<Rightarrow> event list" where
  "pendingTimers lw =
     OuterTimeout # map SubTimeout (subTimeouts lw) @ map ResizeTimeout (resizeTimeouts lw)"

text \<open>Nothing of the watch is left: no subscription and no timer.\<close>

definition released :: "launch_watch \<Rightarrow> bool" where
  "released lw \<longleftrightarrow>
     \<not> handlerConnected lw \<and> \<not> timeoutPending lw \<and> notifyConnected lw = []
     \<and> subTimeouts lw = [] \<and> resizeTimeouts lw = []"

section \<open>Reference definitions and sample states\<close>

text \<open>
  A comparison of strings by character code, position by position: one
  collation that \<open>localeCompare\<close> can be. It is used where a statement has to
  be evaluated on a concrete state.
\<close>

fun codeUnitCompare :: "string \<Rightarrow> string \<Rightarrow> int" where
  "codeUnitCompare [] [] = 0"
| "codeUnitCompare [] (y # ys) = - 1"
| "codeUnitCompare (x # xs) [] = 1"
| "codeUnitCompare (x # xs) (y # ys) =
     (if x = y then codeUnitCompare xs ys
      else if (of_char x :: nat) < of_char y then - 1 else 1)"

text \<open>A character of ASCII text: a code unit below 128. On such text the
  string functions above are those of ECMAScript.\<close>

definition isAscii :: "char \<Rightarrow> bool" where
  "isAscii c \<longleftrightarrow> (of_char c :: nat) < 128"

text \<open>The spec's reading of a hexadecimal id in any case and with or without
  prefix: after trimming and an optional \<^verbatim>\<open>0x\<close>, hexadecimal digits and
  nothing else.\<close>

definition specHexNumeral :: "string \<Rightarrow> bool" where
  "specHexNumeral s =
     (let t = trim s;
          d = (if startsWith t ''0x'' \<or> startsWith t ''0X'' then drop 2 t else t)
      in d \<noteq> [] \<and> list_all isHexDigit d)"

text \<open>Workspace number \<open>i\<close> of a running shell.\<close>

definition sampleWorkspace :: "int \<Rightarrow> workspace" where
  "sampleWorkspace i = \<lparr> ws_handle = nat i, index = Returns i, ws_activate = Returns () \<rparr>"

text \<open>An ordinary application window under X11: \<open>h\<close> is its handle, its X
  window id and its stable sequence number, \<open>c\<close> both halves of its class and
  its title, \<open>i\<close> its workspace.\<close>

definition sampleWindow :: "nat \<Rightarrow> string \<Rightarrow> int \<Rightarrow> meta_window" where
  "sampleWindow h c i =
     \<lparr> handle = h,
       get_xwindow = Returns h,
       get_stable_sequence = Returns h,
       get_id = Absent,
       hash = None,
       get_wm_class_instance = Returns (Some c),
       get_wm_class = Returns (Some c),
       get_window_app = NoApp,
       is_on_all_workspaces = Returns False,
       get_workspace = Returns (Some (sampleWorkspace i)),
       get_title = Some (Some c),
       skip_taskbar = False,
       get_window_type = Returns NORMAL,
       minimized = False,
       unminimize = Returns (),
       activate = Returns (),
       activate_full = Absent,
       get_frame_rect = Returns (Some (10, 20)),
       move_resize_frame = Returns () \<rparr>"

text \<open>A shell showing workspace 0 with the windows \<open>ws\<close>, in the order of
  their actors, and \<open>focus\<close> as the focus window.\<close>

definition sampleShell :: "meta_window list \<Rightarrow> meta_window option \<Rightarrow> shell" where
  "sampleShell ws focus =
     \<lparr> get_window_actors = Some (map Some ws),
       get_active_workspace = Returns (Some (sampleWorkspace 0)),
       get_focus_window = Returns focus,
       focus_window = None,
       display_activate_workspace = Absent,
       get_monitor_geometry = Some (1920, 1080),
       spawn_command_line_async = (\<lambda>command. Some ()),
       date_now = 1000,
       localeCompare = codeUnitCompare \<rparr>"

text \<open>
  What the sort needs of \<open>localeCompare\<close>: the sign of \<open>lc b a\<close> is opposite
  to that of \<open>lc a b\<close>, and "not after" is transitive. ECMAScript asks this of
  every comparison function handed to \<^verbatim>\<open>sort\<close>.
\<close>

definition consistentCompare :: "('a \<Rightarrow> 'a \<Rightarrow> int) \<Rightarrow> bool" where
  "consistentCompare lc \<longleftrightarrow>
     (\<forall>a b. lc a b < 0 \<longleftrightarrow> 0 < lc b a) \<and>
     (\<forall>a b c. lc a b \<le> 0 \<and> lc b c \<le> 0 \<longrightarrow> lc a c \<le> 0)"

text \<open>
  The spec's order of a snapshot: ascending by the tuple
  \<open>(orderKey, workspaceIndex, classKey, title, id)\<close>, the strings compared by
  \<open>lc\<close>. An entry is not after another when the first field in which they
  differ is smaller.
\<close>

definition specTupleLe :: "(string \<Rightarrow> string \<Rightarrow> int) \<Rightarrow> item \<Rightarrow> item \<Rightarrow> bool" where
  "specTupleLe lc a b \<longleftrightarrow>
     key a < key b \<or> (key a = key b \<and>
       (desk a < desk b \<or> (desk a = desk b \<and>
         (lc (cls a) (cls b) < 0 \<or> (lc (cls a) (cls b) = 0 \<and>
           (lc (title a) (title b) < 0 \<or> (lc (title a) (title b) = 0 \<and>
             lc (ident a) (ident b) \<le> 0)))))))"

text \<open>The windows whose id comes from the clock: no non-zero X window id, no
  non-zero sequence number, and \<^verbatim>\<open>w.hash()\<close> raises.\<close>

definition idFromClock :: "meta_window \<Rightarrow> bool" where
  "idFromClock w \<longleftrightarrow>
     (case get_xwindow w of Returns xid \<Rightarrow> xid = 0 | _ \<Rightarrow> True) \<and>
     (case get_stable_sequence w of
        Returns s \<Rightarrow> s = 0
      | Raises \<Rightarrow> True
      | Absent \<Rightarrow> (case get_id w of Returns s \<Rightarrow> s = 0 | _ \<Rightarrow> True)) \<and>
     hash w = None"

text \<open>A window that offers none of the identifying methods.\<close>

definition anonymousWindow :: meta_window where
  "anonymousWindow =
     (sampleWindow 1 ''A'' 0)
       \<lparr> get_xwindow := Absent, get_stable_sequence := Absent, get_id := Absent \<rparr>"

text \<open>
  The spec's circuit: the windows met by walking circularly through \<open>xs\<close>
  from position \<open>idx\<close> by the signed step \<open>delta\<close>, for as many steps as
  \<open>xs\<close> is long.
\<close>

definition specCircuit :: "'a list \<Rightarrow> int \<Rightarrow> int \<Rightarrow> 'a list" where
  "specCircuit xs idx delta =
     map (\<lambda>step. xs ! nat ((idx + delta * int step) mod int (length xs)))
       [1..<Suc (length xs)]"

text \<open>A dock: it has the focus, and the registry leaves it out.\<close>

definition dockWindow :: meta_window where
  "dockWindow = (sampleWindow 9 ''Dock'' 0) \<lparr> get_window_type := Returns DOCK \<rparr>"

text \<open>Among the events \<open>evs\<close>, window \<open>h\<close> was announced by
  \<^verbatim>\<open>window-created\<close> with an order key above \<open>threshold\<close>.\<close>

definition createdAbove :: "int \<Rightarrow> event list \<Rightarrow> nat \<Rightarrow> bool" where
  "createdAbove threshold evs h =
     list_ex (\<lambda>e. case e of
                     WindowCreated sh win \<Rightarrow>
                       handle win = h \<and> threshold < creationOrderKey sh win
                   | _ \<Rightarrow> False) evs"

text \<open>What holds of a watch at every moment: while the
  \<^verbatim>\<open>window-created\<close> subscription is connected the 10-second timer is
  pending, and every connected class-change subscription has its 5-second
  timer pending.\<close>

definition watchInv :: "launch_watch \<Rightarrow> bool" where
  "watchInv lw \<longleftrightarrow>
     (handlerConnected lw \<longrightarrow> timeoutPending lw) \<and>
     list_all (\<lambda>(n, h). n \<in> set (subTimeouts lw)) (notifyConnected lw)"

text \<open>The watch that \<^verbatim>\<open>_launchHere("xterm", "X.X")\<close> sets up beside windows
  with order keys 1, 2, 3.\<close>

definition sampleWatch :: launch_watch where
  "sampleWatch =
     \<lparr> maxKey = 3, path = ''xterm'', appId = ''X.X'', handlerConnected = True,
       timeoutPending = True, notifyConnected = [], subTimeouts = [],
       resizeTimeouts = [], nextId = 0, performed = [] \<rparr>"

section \<open>Properties of the helpers\<close>

subsection \<open>Hexadecimal numerals and ids\<close>

lemma hexDigit_table:
  "\<forall>k \<in> set [0..<16]. hexVal (''0123456789abcdef'' ! k) = Some k
        \<and> toLowerChar (''0123456789abcdef'' ! k) = ''0123456789abcdef'' ! k"
  unfolding hexVal_def toLowerChar_def by (simp add: upt_rec)

lemma hexVal_hexDigit: "hexVal (hexDigit d) = Some (d mod 16)"
  using hexDigit_table unfolding hexDigit_def by simp

lemma toLowerChar_hexDigit: "toLowerChar (hexDigit d) = hexDigit d"
  using hexDigit_table unfolding hexDigit_def by simp

lemma isHexDigit_hexDigit: "isHexDigit (hexDigit d)"
  by (simp add: isHexDigit_def hexVal_hexDigit)

lemma isHexDigit_not_space: "isHexDigit c \<Longrightarrow> \<not> isWhiteSpace c"
  unfolding isHexDigit_def hexVal_def isWhiteSpace_def
  by (auto split: if_splits)

lemma isHexDigit_not_sign: "isHexDigit c \<Longrightarrow> c \<noteq> CHR ''-'' \<and> c \<noteq> CHR ''+'' \<and> c \<noteq> CHR ''x'' \<and> c \<noteq> CHR ''X''"
  unfolding isHexDigit_def hexVal_def
  by (auto split: if_splits)

lemma hexVal_toLowerChar: "isHexDigit (toLowerChar c) \<Longrightarrow> hexVal c = hexVal (toLowerChar c)"
  unfolding isHexDigit_def hexVal_def toLowerChar_def
  by (auto split: if_splits)

lemma isHexDigit_toLowerChar: "isHexDigit (toLowerChar c) \<Longrightarrow> isHexDigit c"
  using hexVal_toLowerChar [of c] by (simp add: isHexDigit_def)

lemma toHex_not_Nil: "toHex n \<noteq> []"
  by (subst toHex.simps) simp

lemma toHex_digits: "c \<in> set (toHex n) \<Longrightarrow> isHexDigit c"
proof (induction n arbitrary: c rule: toHex.induct)
  case (1 n)
  then show ?case
    by (subst (asm) (2) toHex.simps) (auto simp: isHexDigit_hexDigit split: if_splits)
qed

lemma toLowerCase_toHex: "toLowerCase (toHex n) = toHex n"
proof (induction n rule: toHex.induct)
  case (1 n)
  then show ?case
    by (subst (1 2) toHex.simps) (simp add: toLowerCase_def toLowerChar_hexDigit)
qed

lemma hexValue_snoc:
  "hexValue (z @ [c]) = 16 * hexValue z + (case hexVal c of Some d \<Rightarrow> d | None \<Rightarrow> 0)"
  by (simp add: hexValue_def)

lemma hexValue_toHex: "hexValue (toHex n) = n"
proof (induction n rule: toHex.induct)
  case (1 n)
  show ?case
  proof (cases "n < 16")
    case True
    then show ?thesis
      by (subst toHex.simps) (simp add: hexValue_def hexVal_hexDigit)
  next
    case False
    with "1" have "hexValue (toHex (n div 16)) = n div 16" by simp
    with False show ?thesis
      by (subst toHex.simps) (simp add: hexValue_snoc hexVal_hexDigit)
  qed
qed

lemma hexValue_toLowerCase:
  "\<forall>c \<in> set (toLowerCase u). isHexDigit c \<Longrightarrow> hexValue u = hexValue (toLowerCase u)"
proof (induction u rule: rev_induct)
  case Nil
  then show ?case by (simp add: toLowerCase_def)
next
  case (snoc c u)
  then show ?case
    by (simp add: hexValue_snoc toLowerCase_def hexVal_toLowerChar)
qed


lemma startsWith_0x_digits:
  "\<forall>c \<in> set z. isHexDigit c \<Longrightarrow> \<not> startsWith z ''0x'' \<and> \<not> startsWith z ''0X''"
  by (cases z; cases "tl z") (auto dest: isHexDigit_not_sign)

lemma isHexDigit_lower: "isHexDigit c \<Longrightarrow> isHexDigit (toLowerChar c)"
  unfolding isHexDigit_def hexVal_def toLowerChar_def
  by (auto split: if_splits)

lemma signAndPrefixStripped_digits:
  assumes "z \<noteq> []" and "\<forall>c \<in> set z. isHexDigit c"
  shows "signAndPrefixStripped z = z" and "\<not> startsWith (dropWhile isWhiteSpace z) ''-''"
proof -
  obtain c cs where z: "z = c # cs" using assms(1) by (cases z) auto
  with assms(2) have c: "isHexDigit c" by simp
  have s1: "dropWhile isWhiteSpace z = z"
    using z c by (simp add: isHexDigit_not_space)
  have sg: "\<not> startsWith z ''-''" "\<not> startsWith z ''+''"
    using z c by (auto dest: isHexDigit_not_sign)
  show "signAndPrefixStripped z = z"
    unfolding signAndPrefixStripped_def Let_def s1
    using sg startsWith_0x_digits [OF assms(2)] by simp
  show "\<not> startsWith (dropWhile isWhiteSpace z) ''-''"
    unfolding s1 by (rule sg)
qed

lemma parseInt16_digits:
  assumes "z \<noteq> []" and "\<forall>c \<in> set z. isHexDigit c"
  shows "parseInt16 z = Some (int (hexValue z))"
proof -
  have tw: "takeWhile isHexDigit z = z"
    using assms(2) by (simp add: takeWhile_eq_all_conv)
  show ?thesis
    unfolding parseInt16_def Let_def signAndPrefixStripped_digits(1) [OF assms]
    using signAndPrefixStripped_digits(2) [OF assms] by (simp add: tw assms(1))
qed

lemma trim_padded:
  assumes "\<forall>c \<in> set ws1. isWhiteSpace c" and "\<forall>c \<in> set ws2. isWhiteSpace c"
    and "v \<noteq> []" and "\<not> isWhiteSpace (hd v)" and "\<not> isWhiteSpace (last v)"
  shows "trim (ws1 @ v @ ws2) = v"
proof -
  have a: "dropWhile isWhiteSpace (ws1 @ v @ ws2) = v @ ws2"
    using assms(1,3,4) by (cases v) (simp_all add: dropWhile_append2)
  have "dropWhile isWhiteSpace (rev ws2 @ rev v) = dropWhile isWhiteSpace (rev v)"
    using assms(2) by (intro dropWhile_append2) simp
  also have "\<dots> = rev v"
    using assms(3,5) by (cases v rule: rev_cases) simp_all
  finally have b: "dropWhile isWhiteSpace (rev ws2 @ rev v) = rev v" .
  show ?thesis
    unfolding trim_def a by (simp add: b)
qed

lemma normalizeIdString_numeral:
  assumes ne: "u \<noteq> []" and dig: "\<forall>c \<in> set u. isHexDigit c"
    and pre: "pre = [] \<or> pre = ''0x'' \<or> pre = ''0X''"
    and ws: "\<forall>c \<in> set ws1. isWhiteSpace c" "\<forall>c \<in> set ws2. isWhiteSpace c"
  shows "normalizeIdString (ws1 @ pre @ u @ ws2) = Some (''0x'' @ toHex (hexValue u))"
proof -
  define l where "l = toLowerCase u"
  have l_ne: "l \<noteq> []" using ne by (simp add: l_def toLowerCase_def)
  have l_dig: "\<forall>c \<in> set l. isHexDigit c"
    using dig by (auto simp: l_def toLowerCase_def isHexDigit_lower)
  have "isHexDigit (hd u)" "isHexDigit (last u)"
    using dig ne by simp_all
  then have hd_u: "\<not> isWhiteSpace (hd u)" and last_u: "\<not> isWhiteSpace (last u)"
    by (simp_all add: isHexDigit_not_space)
  have "\<not> isWhiteSpace (hd (pre @ u))"
    using pre hd_u ne by (auto simp: isWhiteSpace_def)
  moreover have "\<not> isWhiteSpace (last (pre @ u))" using last_u ne by simp
  ultimately have tr: "trim (ws1 @ (pre @ u) @ ws2) = pre @ u"
    using ws ne by (intro trim_padded) auto
  have low: "toLowerCase (pre @ u) = (if pre = [] then [] else ''0x'') @ l"
    using pre by (auto simp: l_def toLowerCase_def toLowerChar_def)
  have strip: "(if startsWith (toLowerCase (pre @ u)) ''0x''
                then drop 2 (toLowerCase (pre @ u)) else toLowerCase (pre @ u)) = l"
    using startsWith_0x_digits [OF l_dig] by (auto simp: low)
  have "hexValue l = hexValue u"
    using hexValue_toLowerCase [of u] l_dig by (simp add: l_def)
  then have p: "parseInt16 l = Some (int (hexValue u))"
    using parseInt16_digits [OF l_ne l_dig] by simp
  have "normalizeIdString (ws1 @ (pre @ u) @ ws2) = Some (''0x'' @ toHex (hexValue u))"
    unfolding normalizeIdString_def Let_def tr strip p
    by (simp add: numToString16_def)
  then show ?thesis by simp
qed

lemma normalizeIdString_toHex: "normalizeIdString (''0x'' @ toHex n) = Some (''0x'' @ toHex n)"
  using normalizeIdString_numeral [of "toHex n" "''0x''" "[]" "[]"] toHex_not_Nil [of n]
    toHex_digits [of _ n]
  by (simp add: hexValue_toHex)

lemma normalizeIdString_None_iff:
  "normalizeIdString s = None \<longleftrightarrow>
     (case signAndPrefixStripped
             (let t = toLowerCase (trim s) in if startsWith t ''0x'' then drop 2 t else t) of
        [] \<Rightarrow> True
      | c # cs \<Rightarrow> \<not> isHexDigit c)"
  unfolding normalizeIdString_def parseInt16_def Let_def
  by (auto split: list.splits option.splits)

lemma toHexId_native:
  "get_xwindow w = Returns xid \<Longrightarrow> xid \<noteq> 0 \<Longrightarrow> toHexId sh w = ''0x'' @ toHex xid"
  by (simp add: toHexId_def)

subsection \<open>Comparison and sorting\<close>

lemma consistentCompare_flip:
  assumes "consistentCompare lc"
  shows "lc a b < 0 \<longleftrightarrow> 0 < lc b a" and "lc a b = 0 \<longleftrightarrow> lc b a = 0"
proof -
  show 1: "lc a b < 0 \<longleftrightarrow> 0 < lc b a" for a b
    using assms by (simp add: consistentCompare_def)
  from 1 [of a b] 1 [of b a] show "lc a b = 0 \<longleftrightarrow> lc b a = 0"
    by linarith
qed

lemma consistentCompare_trans:
  assumes "consistentCompare lc" and "lc a b \<le> 0" and "lc b c \<le> 0"
  shows "lc a c \<le> 0"
  using assms unfolding consistentCompare_def by blast

lemma consistentCompare_lt_le:
  assumes c: "consistentCompare lc" and ab: "lc a b < 0" and bc: "lc b c \<le> 0"
  shows "lc a c < 0"
proof (rule ccontr)
  assume "\<not> lc a c < 0"
  then have "lc c a \<le> 0" using consistentCompare_flip(1) [OF c, of a c] by linarith
  with bc have "lc b a \<le> 0" using consistentCompare_trans [OF c, of b c a] by simp
  then show False using ab consistentCompare_flip(1) [OF c, of a b] by linarith
qed

lemma consistentCompare_le_lt:
  assumes c: "consistentCompare lc" and ab: "lc a b \<le> 0" and bc: "lc b c < 0"
  shows "lc a c < 0"
proof (rule ccontr)
  assume "\<not> lc a c < 0"
  then have "lc c a \<le> 0" using consistentCompare_flip(1) [OF c, of a c] by linarith
  then have "lc c b \<le> 0" using ab consistentCompare_trans [OF c, of c a b] by simp
  then show False using bc consistentCompare_flip(1) [OF c, of b c] by linarith
qed

lemma consistentCompare_eq_eq:
  assumes c: "consistentCompare lc" and ab: "lc a b = 0" and bc: "lc b c = 0"
  shows "lc a c = 0"
proof -
  have "lc a c \<le> 0" using consistentCompare_trans [OF c, of a b c] ab bc by simp
  moreover have "lc c a \<le> 0"
    using consistentCompare_trans [OF c, of c b a] consistentCompare_flip(2) [OF c, of a b]
      consistentCompare_flip(2) [OF c, of b c] ab bc
    by simp
  ultimately show ?thesis using consistentCompare_flip(1) [OF c, of a c] by linarith
qed

lemma compareItems_le_iff: "compareItems lc a b \<le> 0 \<longleftrightarrow> specTupleLe lc a b"
  unfolding compareItems_def specTupleLe_def Let_def by auto

text \<open>One level of the tuple order: a strict part, a tie, and the rest.\<close>

lemma lex_step_trans:
  assumes "lt a b \<or> (eq a b \<and> r a b)" and "lt b c \<or> (eq b c \<and> r b c)"
    and "lt a b \<Longrightarrow> lt b c \<Longrightarrow> lt a c"
    and "lt a b \<Longrightarrow> eq b c \<Longrightarrow> lt a c"
    and "eq a b \<Longrightarrow> lt b c \<Longrightarrow> lt a c"
    and "eq a b \<Longrightarrow> eq b c \<Longrightarrow> eq a c"
    and "r a b \<Longrightarrow> r b c \<Longrightarrow> r a c"
  shows "lt a c \<or> (eq a c \<and> r a c)"
  using assms by blast

lemma specTupleLe_trans:
  assumes c: "consistentCompare lc" and ab: "specTupleLe lc a b" and bc: "specTupleLe lc b c"
  shows "specTupleLe lc a c"
proof -
  define L5 where "L5 (x::item) (y::item) \<longleftrightarrow> lc (ident x) (ident y) \<le> 0" for x y
  define L4 where "L4 (x::item) (y::item) \<longleftrightarrow> lc (title x) (title y) < 0 \<or> (lc (title x) (title y) = 0 \<and> L5 x y)" for x y
  define L3 where "L3 (x::item) (y::item) \<longleftrightarrow> lc (cls x) (cls y) < 0 \<or> (lc (cls x) (cls y) = 0 \<and> L4 x y)" for x y
  define L2 where "L2 (x::item) (y::item) \<longleftrightarrow> desk x < desk y \<or> (desk x = desk y \<and> L3 x y)" for x y
  have sp: "specTupleLe lc x y \<longleftrightarrow> key x < key y \<or> (key x = key y \<and> L2 x y)" for x y
    by (simp add: specTupleLe_def L2_def L3_def L4_def L5_def)
  have s: "lc x y < 0 \<or> (lc x y = 0 \<and> R)" if
    "lc x z < 0 \<or> (lc x z = 0 \<and> P)" "lc z y < 0 \<or> (lc z y = 0 \<and> Q)" "P \<Longrightarrow> Q \<Longrightarrow> R"
    for x y z P Q R
    using that consistentCompare_lt_le [OF c, of x z y] consistentCompare_le_lt [OF c, of x z y]
      consistentCompare_eq_eq [OF c, of x z y]
    by (elim disjE conjE) simp_all
  have t5: "L5 a b \<Longrightarrow> L5 b c \<Longrightarrow> L5 a c"
    unfolding L5_def by (rule consistentCompare_trans [OF c])
  have t4: "L4 a b \<Longrightarrow> L4 b c \<Longrightarrow> L4 a c"
    unfolding L4_def by (rule s [where z = "title b"]) (assumption, assumption, rule t5)
  have t3: "L3 a b \<Longrightarrow> L3 b c \<Longrightarrow> L3 a c"
    unfolding L3_def by (rule s [where z = "cls b"]) (assumption, assumption, rule t4)
  have t2: "L2 a b \<Longrightarrow> L2 b c \<Longrightarrow> L2 a c"
    unfolding L2_def using t3 by (elim disjE conjE) simp_all
  show ?thesis
    using ab bc t2 unfolding sp by (elim disjE conjE) simp_all
qed

lemma specTupleLe_total:
  assumes c: "consistentCompare lc"
  shows "specTupleLe lc a b \<or> specTupleLe lc b a"
proof -
  have f: "lc x y < 0 \<or> lc x y = 0 \<and> lc y x = 0 \<or> lc y x < 0" for x y
    using consistentCompare_flip [OF c, of x y] by linarith
  show ?thesis
    using f [of "cls a" "cls b"] f [of "title a" "title b"] f [of "ident a" "ident b"]
    unfolding specTupleLe_def by (elim disjE conjE) auto
qed

lemma set_insertBy: "set (insertBy cmp x ys) = insert x (set ys)"
  by (induction ys) auto

lemma sorted_wrt_insertBy:
  assumes tr: "\<And>a b c. le a b \<Longrightarrow> le b c \<Longrightarrow> le a c"
    and tot: "\<And>a b. le a b \<or> le b a"
    and cmp: "\<And>a b. cmp a b \<le> 0 \<longleftrightarrow> le a b"
    and "sorted_wrt le ys"
  shows "sorted_wrt le (insertBy cmp x ys)"
  using assms(4)
proof (induction ys)
  case Nil
  then show ?case by simp
next
  case (Cons y ys)
  show ?case
  proof (cases "cmp x y \<le> 0")
    case True
    then have "le x y" by (simp add: cmp)
    then have "\<forall>z \<in> set ys. le x z" using Cons.prems tr by auto
    with True \<open>le x y\<close> Cons.prems show ?thesis by simp
  next
    case False
    then have "le y x" using tot [of x y] by (simp add: cmp)
    with False Cons show ?thesis by (auto simp: set_insertBy)
  qed
qed

lemma sorted_wrt_sortBy:
  assumes "\<And>a b c. le a b \<Longrightarrow> le b c \<Longrightarrow> le a c"
    and "\<And>a b. le a b \<or> le b a"
    and "\<And>a b. cmp a b \<le> 0 \<longleftrightarrow> le a b"
  shows "sorted_wrt le (sortBy cmp xs)"
  by (induction xs) (simp_all add: sorted_wrt_insertBy [OF assms])

lemma specTupleLe_key: "specTupleLe lc a b \<Longrightarrow> key a \<le> key b"
  unfolding specTupleLe_def by auto

lemma codeUnitCompare_flip: "codeUnitCompare a b < 0 \<longleftrightarrow> 0 < codeUnitCompare b a"
  by (induction a b rule: codeUnitCompare.induct) (auto simp: not_less le_less)

lemma codeUnitCompare_trans:
  "codeUnitCompare a b \<le> 0 \<Longrightarrow> codeUnitCompare b c \<le> 0 \<Longrightarrow> codeUnitCompare a c \<le> 0"
proof (induction a b arbitrary: c rule: codeUnitCompare.induct)
  case 1
  then show ?case by simp
next
  case (2 y ys)
  then show ?case by (cases c) simp_all
next
  case (3 x xs)
  then show ?case by simp
next
  case (4 x xs y ys)
  then show ?case
    by (cases c) (auto split: if_splits)
qed

lemma consistentCompare_codeUnitCompare: "consistentCompare codeUnitCompare"
  unfolding consistentCompare_def
  using codeUnitCompare_flip codeUnitCompare_trans by blast

subsection \<open>The clock\<close>

lemma toHexId_clock:
  "\<not> idFromClock w \<Longrightarrow> toHexId (sh\<lparr>date_now := t\<rparr>) w = toHexId sh w"
  unfolding idFromClock_def toHexId_def Let_def
  by (auto split: probe.splits option.splits if_splits)

lemma creationOrderKey_clock:
  assumes "\<not> idFromClock w"
  shows "creationOrderKey (sh\<lparr>date_now := t\<rparr>) w = creationOrderKey sh w"
  unfolding creationOrderKey_def toHexId_clock [OF assms] ..

lemma itemOf_clock:
  "\<not> idFromClock w \<Longrightarrow> itemOf (sh\<lparr>date_now := t\<rparr>) w = itemOf sh w"
  unfolding itemOf_def by (simp add: toHexId_clock creationOrderKey_clock)

lemma listWindowsItems_clock:
  assumes "get_window_actors sh = Some actors" and "\<forall>w \<in> set (eligible actors). \<not> idFromClock w"
  shows "listWindowsItems (sh\<lparr>date_now := t\<rparr>) = listWindowsItems sh"
proof -
  have eq: "map (itemOf (sh\<lparr>date_now := t\<rparr>)) (eligible actors) = map (itemOf sh) (eligible actors)"
    using assms(2) by (simp add: itemOf_clock)
  show ?thesis
    using assms(1) by (simp add: listWindowsItems_def eq)
qed

lemma set_sortBy: "set (sortBy cmp xs) = set xs"
  by (induction xs) (auto simp: set_insertBy)

lemma length_insertBy: "length (insertBy cmp x ys) = Suc (length ys)"
  by (induction ys) auto

lemma length_sortBy: "length (sortBy cmp xs) = length xs"
  by (induction xs) (auto simp: length_insertBy)

subsection \<open>Sample windows\<close>

lemma sampleWindow_eligible [simp]: "isTasklistWindow (sampleWindow h c i)"
  by (simp add: isTasklistWindow_def sampleWindow_def)

lemma sampleWindow_toHexId:
  "h \<noteq> 0 \<Longrightarrow> toHexId sh (sampleWindow h c i) = ''0x'' @ toHex h"
  by (simp add: toHexId_def sampleWindow_def)

lemma sampleWindow_key:
  "h \<noteq> 0 \<Longrightarrow> creationOrderKey sh (sampleWindow h c i) = int h"
  by (simp add: creationOrderKey_def sampleWindow_def)

lemma sampleWindow_desk: "workspaceIndex (sampleWindow h c i) = i"
  by (simp add: workspaceIndex_def sampleWindow_def sampleWorkspace_def)

lemma sampleWindow_cls:
  "c \<noteq> [] \<Longrightarrow> classInstance (sampleWindow h c i) = toLowerCase c @ ''.'' @ toLowerCase c"
  by (simp add: classInstance_def sampleWindow_def truthy_def)

lemma sampleWindow_itemOf:
  "h \<noteq> 0 \<Longrightarrow> c \<noteq> [] \<Longrightarrow>
   itemOf sh (sampleWindow h c i)
     = \<lparr> key = int h, ident = ''0x'' @ toHex h, desk = i,
         cls = toLowerCase c @ ''.'' @ toLowerCase c, title = c \<rparr>"
  by (simp add: itemOf_def sampleWindow_toHexId sampleWindow_key sampleWindow_desk
        sampleWindow_cls) (simp add: sampleWindow_def)

lemma toHex_small: "n < 16 \<Longrightarrow> toHex n = [hexDigit n]"
  by (simp add: toHex.simps)

lemma sampleWindow_not_clock: "h \<noteq> 0 \<Longrightarrow> \<not> idFromClock (sampleWindow h c i)"
  by (simp add: idFromClock_def sampleWindow_def)

lemma sampleShell_actors:
  "get_window_actors (sampleShell ws f) = Some (map Some ws)"
  "localeCompare (sampleShell ws f) = codeUnitCompare"
  by (simp_all add: sampleShell_def)

lemma eligible_map_Some: "eligible (map Some ws) = filter isTasklistWindow ws"
  by (induction ws) simp_all

subsection \<open>The focus-cycle engine\<close>

lemma wrapIndex_mod:
  assumes "0 < len"
  shows "wrapIndex a len = a mod len"
proof (cases "0 \<le> a")
  case True
  then have "jsRem a len = a mod len"
    using assms by (cases "a = 0") (simp_all add: jsRem_def)
  moreover have "0 \<le> a mod len" using assms by simp
  ultimately show ?thesis by (simp add: wrapIndex_def)
next
  case False
  then have neg: "a < 0" by simp
  then have j: "jsRem a len = - ((- a) mod len)"
    using assms by (simp add: jsRem_def)
  show ?thesis
  proof (cases "a mod len = 0")
    case True
    then have "(- a) mod len = 0" by (simp add: zmod_zminus1_eq_if)
    with j True show ?thesis by (simp add: wrapIndex_def)
  next
    case nz: False
    then have m: "(- a) mod len = len - a mod len" by (simp add: zmod_zminus1_eq_if)
    have "a mod len < len" "0 \<le> a mod len" using assms by simp_all
    with nz have "- (len - a mod len) < 0" by linarith
    with j m show ?thesis by (simp add: wrapIndex_def)
  qed
qed

lemma at_mod:
  assumes "xs \<noteq> []"
  shows "at xs (a mod int (length xs)) = Some (xs ! nat (a mod int (length xs)))"
  using assms by (simp add: at_def)

lemma at_wrapIndex:
  assumes "xs \<noteq> []"
  shows "at xs (wrapIndex a (int (length xs))) = Some (xs ! nat (a mod int (length xs)))"
  using assms by (simp add: wrapIndex_mod at_mod)

lemma at_0: "xs \<noteq> [] \<Longrightarrow> at xs 0 = Some (xs ! 0)"
  by (simp add: at_def)

lemma classInstance_not_Nil: "classInstance w \<noteq> []"
  by (simp add: classInstance_def Let_def)

lemma truthy_classInstance: "truthy (Some (classInstance w)) = Some (classInstance w)"
  by (simp add: truthy_def classInstance_not_Nil)

lemma focusRelativeSameAppWindow_target:
  assumes "activeWindowId sh \<noteq> []"
    and "findWindowById sh (activeWindowId sh) = Inr (Some activeWin)"
    and "listWindowsItems sh = Inr all"
    and items: "items = filter (\<lambda>it. cls it = classInstance activeWin
                   \<and> (desk it = activeWorkspaceIndex sh \<or> desk it = - 1)) all"
    and ne: "items \<noteq> []"
    and idx: "idx = (case findIndex (hasId (activeWindowId sh)) items of
                          Some i \<Rightarrow> int i
                        | None \<Rightarrow> if delta > 0 then - 1 else 0)"
  shows "focusRelativeSameAppWindow sh delta
           = activateWindowById sh (ident (items ! nat ((idx + delta) mod int (length items))))"
proof -
  have all: "all \<noteq> []" using items ne by auto
  have f: "filter (\<lambda>it. cls it = classInstance activeWin
              \<and> onWorkspace (activeWorkspaceIndex sh) it) all = items"
    by (simp add: items onWorkspace_def)
  have s: "startIndex (activeWindowId sh) delta items = idx"
    by (simp add: startIndex_def idx)
  have one: "(idx + delta) mod int (length items) = 0" if "length items = 1"
    using that by simp
  show ?thesis
    unfolding focusRelativeSameAppWindow_def Let_def
    using assms(1) all ne
    by (simp add: assms(2,3) truthy_classInstance f s at_wrapIndex one at_0)
qed

lemma scan_find:
  assumes "inWs \<noteq> []"
  shows "scan skip inWs idx delta step n
    = find (\<lambda>c. \<not> skip c)
        (map (\<lambda>k. inWs ! nat ((idx + delta * (step + int k)) mod int (length inWs))) [0..<n])"
proof (induction n arbitrary: step)
  case 0
  show ?case by simp
next
  case (Suc n)
  have shift: "map (\<lambda>k. inWs ! nat ((idx + delta * (step + int k)) mod int (length inWs)))
                 [0..<Suc n]
      = inWs ! nat ((idx + delta * step) mod int (length inWs))
        # map (\<lambda>k. inWs ! nat ((idx + delta * (step + 1 + int k)) mod int (length inWs)))
            [0..<n]"
    by (simp add: upt_conv_Cons map_Suc_upt [symmetric] add.assoc del: upt_Suc)
  show ?case
    unfolding shift
    by (simp add: at_wrapIndex [OF assms] Suc.IH)
qed

lemma scan_circuit:
  assumes "inWs \<noteq> []"
  shows "scan skip inWs idx delta 1 (length inWs)
           = find (\<lambda>c. \<not> skip c) (specCircuit inWs idx delta)"
proof -
  have "map (\<lambda>k. inWs ! nat ((idx + delta * (1 + int k)) mod int (length inWs)))
          [0..<length inWs]
        = specCircuit inWs idx delta"
    unfolding specCircuit_def
    by (simp add: map_Suc_upt [symmetric] del: upt_Suc)
  then show ?thesis
    by (simp add: scan_find [OF assms])
qed

lemma focusRelativeOtherAppWindow_target:
  assumes aid: "activeWindowId sh \<noteq> []"
    and l: "listWindowsItems sh = Inr all"
    and fnd: "find (hasId (activeWindowId sh)) all = Some activeFound"
    and inWs: "inWs = filter (onWorkspace (activeWorkspaceIndex sh)) all"
    and ne: "inWs \<noteq> []"
    and idx: "idx = startIndex (activeWindowId sh) delta inWs"
  shows "focusRelativeOtherAppWindow sh delta
     = (if length inWs = 1
        then (if cls (inWs ! 0) \<noteq> cls activeFound \<and> cls (inWs ! 0) \<noteq> COPYQ_CLS
              then activateWindowById sh (ident (inWs ! 0))
              else (False, []))
        else (case find (\<lambda>c. \<not> (cls c = COPYQ_CLS \<or> cls c = cls activeFound))
                     (specCircuit inWs idx delta) of
                Some cand \<Rightarrow> activateWindowById sh (ident cand)
              | None \<Rightarrow> (False, [])))"
proof -
  have all: "all \<noteq> []" using inWs ne by auto
  show ?thesis
    unfolding focusRelativeOtherAppWindow_def Let_def
    using aid all ne
    by (simp add: l fnd inWs [symmetric] idx [symmetric] at_0 scan_circuit)
qed

lemma focusRelativeAnyAppWindow_target:
  assumes aid: "activeWindowId sh \<noteq> []"
    and l: "listWindowsItems sh = Inr all"
    and inWs: "inWs = filter (onWorkspace (activeWorkspaceIndex sh)) all"
    and ne: "inWs \<noteq> []"
    and idx: "idx = startIndex (activeWindowId sh) delta inWs"
  shows "focusRelativeAnyAppWindow sh delta
     = (case find (\<lambda>c. \<not> (cls c = COPYQ_CLS \<or> hasId (activeWindowId sh) c))
                  (specCircuit inWs idx delta) of
          Some cand \<Rightarrow> activateWindowById sh (ident cand)
        | None \<Rightarrow> (False, []))"
proof -
  have all: "all \<noteq> []" using inWs ne by auto
  show ?thesis
    unfolding focusRelativeAnyAppWindow_def Let_def
    using aid all ne
    by (simp add: l inWs [symmetric] idx [symmetric] scan_circuit)
qed

lemma specCircuit_single: "specCircuit [x] idx delta = [x]"
  by (simp add: specCircuit_def)

text \<open>The definitions that evaluating an operation on a sample state unfolds.\<close>

lemmas sample_eval =
  sampleShell_def sampleWindow_def sampleWorkspace_def
  listWindowsItems_def itemOf_def isTasklistWindow_def creationOrderKey_def toHexId_def
  workspaceIndex_def classInstance_def truthy_def toHex_small hexDigit_def toLowerCase_def
  toLowerChar_def compareItems_def activeWorkspaceIndex_def activeWindowId_def
  findWindowById_def normalizeIdString_def trim_def isWhiteSpace_def parseInt16_def
  signAndPrefixStripped_def isHexDigit_def hexVal_def hexValue_def numToString16_def
  activateWindowById_def switchToWorkspaceOf_def ensureUnminimized_def
  hasId_def onWorkspace_def startIndex_def at_def wrapIndex_def jsRem_def COPYQ_CLS_def

subsection \<open>The launch tracker\<close>

lemma foldl_max_Max: "foldl max (k::int) ks = Max (set (k # ks))"
proof -
  have "foldl max k ks = fold max ks k"
    by (simp add: foldl_conv_fold max.commute)
  also have "\<dots> = Max (set (k # ks))"
    by (rule Max.set_eq_fold [symmetric])
  finally show ?thesis .
qed

lemma maxKeyOf_Max: "currentItems \<noteq> [] \<Longrightarrow> maxKeyOf currentItems = Max (key ` set currentItems)"
  by (cases currentItems) (simp_all add: maxKeyOf_def foldl_max_Max)

lemma maxKeyOf_ge: "it \<in> set currentItems \<Longrightarrow> key it \<le> maxKeyOf currentItems"
  by (cases "currentItems = []") (simp_all add: maxKeyOf_Max)

lemma maxKeyOf_in: "currentItems \<noteq> [] \<Longrightarrow> maxKeyOf currentItems \<in> key ` set currentItems"
  using Max_in [of "key ` set currentItems"] by (simp add: maxKeyOf_Max)

lemma maxKeyOf_Nil: "maxKeyOf [] = 0"
  by (simp add: maxKeyOf_def)

lemma onMatch_fields:
  assumes "\<And>s. maxKey (cleanup s) = maxKey s"
    and "\<And>s. performed (cleanup s) = performed s"
    and "\<And>s. set (notifyConnected (cleanup s)) \<subseteq> set (notifyConnected s)"
  shows "maxKey (onMatch sh win cleanup lw) = maxKey lw"
    and "performed (onMatch sh win cleanup lw) = performed lw @ [handle win]"
    and "set (notifyConnected (onMatch sh win cleanup lw)) \<subseteq> set (notifyConnected lw)"
  using assms(3) [of "lw\<lparr>performed := performed lw @ [handle win],
           resizeTimeouts := resizeTimeouts lw @ t\<rparr>" for t]
  by (auto simp: onMatch_def Let_def assms(1,2) split: sum.splits)

lemma onWmClass_fields:
  "maxKey (onWmClass sh win n lw) = maxKey lw"
  "set (performed (onWmClass sh win n lw)) \<subseteq> insert (handle win) (set (performed lw))"
  "set (notifyConnected (onWmClass sh win n lw)) \<subseteq> set (notifyConnected lw)"
  by (auto simp: onWmClass_def onMatch_def disconnectNotify_def Let_def split: sum.splits)

lemma foldl_onWmClass_fields:
  fixes sh win
  defines "f \<equiv> (\<lambda>s n. if n \<in> set (map fst (notifyConnected s)) then onWmClass sh win n s else s)"
  shows "maxKey (foldl f lw ns) = maxKey lw"
    and "set (performed (foldl f lw ns)) \<subseteq> (if ns = [] then {} else {handle win}) \<union> set (performed lw)"
    and "set (notifyConnected (foldl f lw ns)) \<subseteq> set (notifyConnected lw)"
proof (induction ns arbitrary: lw)
  case Nil
  {
    case 1 show ?case by simp
  next
    case 2 show ?case by simp
  next
    case 3 show ?case by simp
  }
next
  case (Cons n ns)
  have m: "maxKey (f s n) = maxKey s"
    and p: "set (performed (f s n)) \<subseteq> insert (handle win) (set (performed s))"
    and c: "set (notifyConnected (f s n)) \<subseteq> set (notifyConnected s)" for s
    using onWmClass_fields [of sh win n s] by (auto simp: f_def)
  {
    case 1 show ?case using Cons.IH(1) [of "f lw n"] m [of lw] by simp
  next
    case 2 show ?case using Cons.IH(2) [of "f lw n"] p [of lw]
      by (auto split: if_splits)
  next
    case 3 show ?case using Cons.IH(3) [of "f lw n"] c [of lw]
      by auto
  }
qed

lemma createdAbove_append: "createdAbove t evs h \<Longrightarrow> createdAbove t (evs @ es) h"
  by (auto simp: createdAbove_def list_ex_iff)

lemma createdAbove_snoc:
  "t < creationOrderKey sh win \<Longrightarrow> createdAbove t (evs @ [WindowCreated sh win]) (handle win)"
  by (auto simp: createdAbove_def list_ex_iff)

lemma onWindowCreated_low:
  "creationOrderKey sh win \<le> maxKey lw \<Longrightarrow> onWindowCreated sh win lw = lw"
  by (simp add: onWindowCreated_def Let_def)

lemma onWindowCreated_fields:
  "maxKey (onWindowCreated sh win lw) = maxKey lw"
  "set (performed (onWindowCreated sh win lw)) \<subseteq>
     (if maxKey lw < creationOrderKey sh win then {handle win} else {}) \<union> set (performed lw)"
  "snd ` set (notifyConnected (onWindowCreated sh win lw)) \<subseteq>
     (if maxKey lw < creationOrderKey sh win then {handle win} else {})
       \<union> snd ` set (notifyConnected lw)"
  by (auto simp: onWindowCreated_def onMatch_def Let_def split: sum.splits)

lemma deliver_maxKey: "maxKey (deliver lw e) = maxKey lw"
proof (cases e)
  case (WmClassChanged sh win)
  show ?thesis
    unfolding WmClassChanged deliver.simps by (rule foldl_onWmClass_fields(1))
qed (simp_all add: onWindowCreated_fields disconnectNotify_def)

lemma runEvents_maxKey: "maxKey (runEvents lw evs) = maxKey lw"
  unfolding runEvents_def by (induction evs arbitrary: lw) (simp_all add: deliver_maxKey)

lemma deliver_created:
  assumes p: "\<forall>h \<in> set (performed lw). createdAbove (maxKey lw) evs h"
    and c: "\<forall>h \<in> snd ` set (notifyConnected lw). createdAbove (maxKey lw) evs h"
  shows "(\<forall>h \<in> set (performed (deliver lw e)). createdAbove (maxKey lw) (evs @ [e]) h)
       \<and> (\<forall>h \<in> snd ` set (notifyConnected (deliver lw e)). createdAbove (maxKey lw) (evs @ [e]) h)"
proof -
  have up: "createdAbove (maxKey lw) (evs @ [e]) h" if "createdAbove (maxKey lw) evs h" for h
    using that by (rule createdAbove_append)
  have grow: ?thesis
    if P: "set (performed (deliver lw e)) \<subseteq> A \<union> set (performed lw)"
      and C: "snd ` set (notifyConnected (deliver lw e)) \<subseteq> A \<union> snd ` set (notifyConnected lw)"
      and A: "\<forall>h \<in> A. createdAbove (maxKey lw) (evs @ [e]) h"
    for A
    using P C A p c up by blast
  show ?thesis
  proof (cases e)
    case (WindowCreated sh win)
    show ?thesis
    proof (cases "handlerConnected lw")
      case True
      define A where "A = (if maxKey lw < creationOrderKey sh win then {handle win} else {})"
      have "\<forall>h \<in> A. createdAbove (maxKey lw) (evs @ [e]) h"
        unfolding WindowCreated A_def by (simp add: createdAbove_snoc)
      moreover have "set (performed (deliver lw e)) \<subseteq> A \<union> set (performed lw)"
        and "snd ` set (notifyConnected (deliver lw e)) \<subseteq> A \<union> snd ` set (notifyConnected lw)"
        unfolding A_def WindowCreated
        using True onWindowCreated_fields(2,3) [of sh win lw] by simp_all
      ultimately show ?thesis by (intro grow [of A])
    next
      case False
      then have "deliver lw e = lw" by (simp add: WindowCreated)
      then show ?thesis by (intro grow [of "{}"]) simp_all
    qed
  next
    case (WmClassChanged sh win)
    define ns where "ns = map fst (filter (\<lambda>(n, h). h = handle win) (notifyConnected lw))"
    define f where
      "f = (\<lambda>s n. if n \<in> set (map fst (notifyConnected s)) then onWmClass sh win n s else s)"
    define A where "A = (if ns = [] then {} else {handle win})"
    have d: "deliver lw e = foldl f lw ns"
      unfolding WmClassChanged deliver.simps ns_def f_def ..
    have "ns \<noteq> [] \<Longrightarrow> handle win \<in> snd ` set (notifyConnected lw)"
      unfolding ns_def by (force simp: filter_empty_conv image_iff)
    then have "ns \<noteq> [] \<Longrightarrow> createdAbove (maxKey lw) (evs @ [e]) (handle win)"
      using c up by blast
    then have "\<forall>h \<in> A. createdAbove (maxKey lw) (evs @ [e]) h"
      unfolding A_def by simp
    moreover have "set (performed (foldl f lw ns)) \<subseteq> A \<union> set (performed lw)"
      unfolding f_def A_def by (rule foldl_onWmClass_fields(2))
    moreover have "set (notifyConnected (foldl f lw ns)) \<subseteq> set (notifyConnected lw)"
      unfolding f_def by (rule foldl_onWmClass_fields(3))
    then have "snd ` set (notifyConnected (foldl f lw ns)) \<subseteq> A \<union> snd ` set (notifyConnected lw)"
      by blast
    ultimately show ?thesis
      unfolding d [symmetric] by (intro grow [of A])
  next
    case (SubTimeout n)
    have "set (notifyConnected (deliver lw e)) \<subseteq> set (notifyConnected lw)"
      and "performed (deliver lw e) = performed lw"
      by (auto simp: SubTimeout disconnectNotify_def)
    then show ?thesis by (intro grow [of "{}"]) auto
  next
    case OuterTimeout
    then show ?thesis by (intro grow [of "{}"]) simp_all
  next
    case (ResizeTimeout h)
    then show ?thesis by (intro grow [of "{}"]) simp_all
  qed
qed

lemma runEvents_created:
  assumes "\<forall>h \<in> set (performed lw). createdAbove (maxKey lw) pre h"
    and "\<forall>h \<in> snd ` set (notifyConnected lw). createdAbove (maxKey lw) pre h"
  shows "\<forall>h \<in> set (performed (runEvents lw evs)). createdAbove (maxKey lw) (pre @ evs) h"
  using assms
proof (induction evs arbitrary: lw pre)
  case Nil
  then show ?case by (simp add: runEvents_def)
next
  case (Cons e evs)
  have "\<forall>h \<in> set (performed (runEvents (deliver lw e) evs)).
          createdAbove (maxKey (deliver lw e)) ((pre @ [e]) @ evs) h"
    using deliver_created [OF Cons.prems, of e]
    by (intro Cons.IH) (simp_all add: deliver_maxKey)
  then show ?case by (simp add: runEvents_def deliver_maxKey)
qed

lemma launchHere_watch:
  assumes "launchHere sh path0 appId0 = Inr (True, Some lw)"
    and "listWindowsItems sh = Inr currentItems"
  shows "maxKey lw = maxKeyOf currentItems" and "performed lw = []" and "notifyConnected lw = []"
    and "subTimeouts lw = []" and "resizeTimeouts lw = []"
    and "handlerConnected lw" and "timeoutPending lw"
  using assms by (auto simp: launchHere_def split: option.splits)

text \<open>The definitions that evaluating the launch tracker unfolds.\<close>

lemmas launch_eval =
  launchHere_def maxKeyOf_def runEvents_def onWindowCreated_def onWmClass_def onMatch_def
  performActions_def disconnectNotify_def

subsection \<open>What the launch tracker releases\<close>

lemma onWindowCreated_match:
  assumes "classInstance win = toLowerCase (appId lw)" and "maxKey lw < creationOrderKey sh win"
    and "performActions sh (path lw) win = Inr ts"
  shows "onWindowCreated sh win lw
           = lw \<lparr> performed := performed lw @ [handle win],
                  resizeTimeouts := resizeTimeouts lw @ ts,
                  handlerConnected := False, timeoutPending := False \<rparr>"
  using assms by (simp add: onWindowCreated_def onMatch_def Let_def)

lemma onWmClass_match:
  assumes "classInstance win = toLowerCase (appId lw)"
    and "performActions sh (path lw) win = Inr ts"
  shows "onWmClass sh win n lw
           = lw \<lparr> performed := performed lw @ [handle win],
                  resizeTimeouts := resizeTimeouts lw @ ts,
                  handlerConnected := False,
                  notifyConnected := filter (\<lambda>(m, h). m \<noteq> n) (notifyConnected lw),
                  timeoutPending := False \<rparr>"
  using assms by (simp add: onWmClass_def onMatch_def disconnectNotify_def Let_def)

lemma foldl_onWmClass_match:
  fixes sh win
  defines "f \<equiv> (\<lambda>s n. if n \<in> set (map fst (notifyConnected s)) then onWmClass sh win n s else s)"
  assumes c: "classInstance win = toLowerCase (appId lw)"
    and p: "performActions sh (path lw) win = Inr ts"
  shows "fst ` set (notifyConnected (foldl f lw ns)) \<subseteq> fst ` set (notifyConnected lw) - set ns"
    and "ns \<noteq> [] \<Longrightarrow> set ns \<subseteq> fst ` set (notifyConnected lw) \<Longrightarrow>
           \<not> handlerConnected (foldl f lw ns) \<and> \<not> timeoutPending (foldl f lw ns)"
    and "subTimeouts (foldl f lw ns) = subTimeouts lw"
  using c p
proof (induction ns arbitrary: lw)
  case Nil
  {
    case 1 show ?case by simp
  next
    case 2 then show ?case by simp
  next
    case 3 show ?case by simp
  }
next
  case (Cons n ns)
  have step: "appId (f s n) = appId s" "path (f s n) = path s"
    "fst ` set (notifyConnected (f s n)) \<subseteq> fst ` set (notifyConnected s) - {n}"
    "subTimeouts (f s n) = subTimeouts s"
    "n \<in> fst ` set (notifyConnected s) \<Longrightarrow> \<not> handlerConnected (f s n) \<and> \<not> timeoutPending (f s n)"
    "\<not> handlerConnected s \<and> \<not> timeoutPending s \<Longrightarrow> \<not> handlerConnected (f s n) \<and> \<not> timeoutPending (f s n)"
    if "classInstance win = toLowerCase (appId s)" "performActions sh (path s) win = Inr ts" for s
    using that by (auto simp: f_def onWmClass_match)
  {
    case 1
    note s = step [OF 1]
    have "fst ` set (notifyConnected (foldl f (f lw n) ns))
            \<subseteq> fst ` set (notifyConnected (f lw n)) - set ns"
      using 1 s(1,2) by (intro Cons.IH(1)) simp_all
    with s(3) show ?case
      unfolding foldl_Cons list.set by blast
  next
    case 2
    note s = step [OF 2(3,4)]
    from 2(2) have n: "n \<in> fst ` set (notifyConnected lw)" by simp
    have off: "\<not> handlerConnected (f lw n) \<and> \<not> timeoutPending (f lw n)"
      using s(5) n by simp
    have keep: "\<not> handlerConnected (foldl f s ms) \<and> \<not> timeoutPending (foldl f s ms)"
      if "\<not> handlerConnected s \<and> \<not> timeoutPending s"
        "classInstance win = toLowerCase (appId s)" "performActions sh (path s) win = Inr ts"
      for s ms
      using that
    proof (induction ms arbitrary: s)
      case Nil
      then show ?case by simp
    next
      case (Cons m ms)
      have "appId (f s m) = appId s" "path (f s m) = path s"
        "\<not> handlerConnected (f s m) \<and> \<not> timeoutPending (f s m)"
        using Cons.prems by (auto simp: f_def onWmClass_match)
      then show ?case using Cons.prems by (simp add: Cons.IH)
    qed
    show ?case
      using keep [of "f lw n" ns] off s(1,2) 2(3,4) by simp
  next
    case 3
    note s = step [OF 3]
    have "subTimeouts (foldl f (f lw n) ns) = subTimeouts (f lw n)"
      using 3 s(1,2) by (intro Cons.IH(3)) simp_all
    with s(4) show ?case by simp
  }
qed

lemma watchInv_iff:
  "watchInv lw \<longleftrightarrow> (handlerConnected lw \<longrightarrow> timeoutPending lw)
      \<and> fst ` set (notifyConnected lw) \<subseteq> set (subTimeouts lw)"
  by (auto simp: watchInv_def list_all_iff)

lemma watchInv_onWmClass: "watchInv lw \<Longrightarrow> watchInv (onWmClass sh win n lw)"
  by (auto simp: watchInv_iff onWmClass_def onMatch_def disconnectNotify_def Let_def
      split: sum.splits)

lemma watchInv_onWindowCreated: "watchInv lw \<Longrightarrow> watchInv (onWindowCreated sh win lw)"
  by (auto simp: watchInv_iff onWindowCreated_def onMatch_def Let_def split: sum.splits)

lemma watchInv_deliver: "watchInv lw \<Longrightarrow> watchInv (deliver lw e)"
proof (cases e)
  case (WmClassChanged sh win)
  have "watchInv s \<Longrightarrow> watchInv (foldl (\<lambda>s n. if n \<in> set (map fst (notifyConnected s))
            then onWmClass sh win n s else s) s ns)" for s ns
    by (induction ns arbitrary: s) (simp_all add: watchInv_onWmClass)
  then show "watchInv lw \<Longrightarrow> watchInv (deliver lw e)"
    unfolding WmClassChanged deliver.simps by blast
next
  case (WindowCreated sh win)
  then show "watchInv lw \<Longrightarrow> watchInv (deliver lw e)"
    by (simp add: watchInv_onWindowCreated)
next
  case (SubTimeout n)
  then show "watchInv lw \<Longrightarrow> watchInv (deliver lw e)"
    by (auto simp: watchInv_iff disconnectNotify_def)
next
  case OuterTimeout
  then show "watchInv lw \<Longrightarrow> watchInv (deliver lw e)"
    by (auto simp: watchInv_iff)
next
  case (ResizeTimeout h)
  then show "watchInv lw \<Longrightarrow> watchInv (deliver lw e)"
    by (auto simp: watchInv_iff)
qed

lemma watchInv_runEvents: "watchInv lw \<Longrightarrow> watchInv (runEvents lw evs)"
  unfolding runEvents_def by (induction evs arbitrary: lw) (simp_all add: watchInv_deliver)

lemma deliver_SubTimeout:
  assumes "fst ` set (notifyConnected lw) \<subseteq> set (subTimeouts lw)"
  shows "set (subTimeouts (deliver lw (SubTimeout n))) = set (subTimeouts lw) - {n}"
    and "fst ` set (notifyConnected (deliver lw (SubTimeout n)))
           \<subseteq> set (subTimeouts (deliver lw (SubTimeout n)))"
    and "handlerConnected (deliver lw (SubTimeout n)) = handlerConnected lw"
    and "timeoutPending (deliver lw (SubTimeout n)) = timeoutPending lw"
    and "resizeTimeouts (deliver lw (SubTimeout n)) = resizeTimeouts lw"
proof -
  show "set (subTimeouts (deliver lw (SubTimeout n))) = set (subTimeouts lw) - {n}"
    by (simp add: disconnectNotify_def)
  have "fst ` set (filter (\<lambda>(m, h). m \<noteq> n) (notifyConnected lw)) \<subseteq> set (subTimeouts lw) - {n}"
    using assms by force
  then show "fst ` set (notifyConnected (deliver lw (SubTimeout n)))
           \<subseteq> set (subTimeouts (deliver lw (SubTimeout n)))"
    using assms by (simp add: disconnectNotify_def)
  show "handlerConnected (deliver lw (SubTimeout n)) = handlerConnected lw"
    "timeoutPending (deliver lw (SubTimeout n)) = timeoutPending lw"
    "resizeTimeouts (deliver lw (SubTimeout n)) = resizeTimeouts lw"
    by (simp_all add: disconnectNotify_def)
qed

lemma fire_subTimeouts:
  assumes "fst ` set (notifyConnected lw) \<subseteq> set (subTimeouts lw)"
  shows "set (subTimeouts (foldl deliver lw (map SubTimeout ns))) = set (subTimeouts lw) - set ns
       \<and> fst ` set (notifyConnected (foldl deliver lw (map SubTimeout ns)))
             \<subseteq> set (subTimeouts (foldl deliver lw (map SubTimeout ns)))
       \<and> handlerConnected (foldl deliver lw (map SubTimeout ns)) = handlerConnected lw
       \<and> timeoutPending (foldl deliver lw (map SubTimeout ns)) = timeoutPending lw
       \<and> resizeTimeouts (foldl deliver lw (map SubTimeout ns)) = resizeTimeouts lw"
  using assms
proof (induction ns arbitrary: lw)
  case Nil
  then show ?case by simp
next
  case (Cons n ns)
  note d = deliver_SubTimeout [OF Cons.prems, of n]
  note ih = Cons.IH [OF d(2)]
  show ?case
    unfolding list.map foldl_Cons
    using ih d(1,3,4,5) by (simp only: list.set) blast
qed

lemma fire_resizeTimeouts:
  "resizeTimeouts lw = hs \<Longrightarrow>
     foldl deliver lw (map ResizeTimeout hs) = lw \<lparr> resizeTimeouts := [] \<rparr>"
  by (induction hs arbitrary: lw) simp_all

lemma fire_pendingTimers:
  assumes "watchInv lw"
  shows "released (runEvents lw (pendingTimers lw))"
proof -
  from assms have ht: "handlerConnected lw \<longrightarrow> timeoutPending lw"
    and sub: "fst ` set (notifyConnected lw) \<subseteq> set (subTimeouts lw)"
    by (simp_all add: watchInv_iff)
  define s1 where "s1 = deliver lw OuterTimeout"
  have s1: "\<not> handlerConnected s1" "\<not> timeoutPending s1"
    "notifyConnected s1 = notifyConnected lw" "subTimeouts s1 = subTimeouts lw"
    "resizeTimeouts s1 = resizeTimeouts lw"
    using ht by (auto simp: s1_def)
  define s2 where "s2 = foldl deliver s1 (map SubTimeout (subTimeouts lw))"
  have "fst ` set (notifyConnected s1) \<subseteq> set (subTimeouts s1)"
    using sub by (simp add: s1)
  from fire_subTimeouts [OF this, of "subTimeouts lw"]
  have f: "set (subTimeouts s2) = set (subTimeouts s1) - set (subTimeouts lw)"
    "fst ` set (notifyConnected s2) \<subseteq> set (subTimeouts s2)"
    "handlerConnected s2 = handlerConnected s1"
    "timeoutPending s2 = timeoutPending s1"
    "resizeTimeouts s2 = resizeTimeouts s1"
    unfolding s2_def [symmetric] by blast+
  have e1: "subTimeouts s2 = []"
    using f(1) by (simp add: s1)
  have e2: "notifyConnected s2 = []"
    using f(2) unfolding e1 by simp
  have s2: "\<not> handlerConnected s2" "\<not> timeoutPending s2" "resizeTimeouts s2 = resizeTimeouts lw"
    using f(3,4,5) by (simp_all add: s1)
  note e = e1 e2
  have s3: "foldl deliver s2 (map ResizeTimeout (resizeTimeouts lw)) = s2 \<lparr> resizeTimeouts := [] \<rparr>"
    using s2(3) by (rule fire_resizeTimeouts)
  have "runEvents lw (pendingTimers lw) = s2 \<lparr> resizeTimeouts := [] \<rparr>"
    unfolding runEvents_def pendingTimers_def
    by (simp only: foldl_Cons foldl_append s1_def [symmetric] s2_def [symmetric] s3)
  then show ?thesis
    by (simp add: released_def s2 e)
qed

lemma launchHere_initial:
  assumes "launchHere sh path0 appId0 = Inr (True, Some lw)"
  shows "watchInv lw"
  using assms
  by (auto simp: launchHere_def watchInv_def split: sum.splits option.splits)

section \<open>Claim C1: the order of a snapshot\<close>

text \<open>
  C1, as the code has it. Let \<open>localeCompare\<close> be a consistent comparison.
  \<^item> Every snapshot \<open>_listWindowsItems\<close> returns is sorted ascending by the
    tuple \<open>(orderKey, workspaceIndex, classKey, title, id)\<close>, the strings
    compared by \<open>localeCompare\<close>.
  \<^item> A window whose order key is strictly greater than another's is never
    before it in the snapshot.
  \<^item> The snapshot is the stable sort of the entries of the eligible windows,
    so it is a function of what the window system and the clock return. When
    no eligible window takes its id from the clock, the snapshot does not
    depend on the clock: building it again from the same window-system state
    gives the same sequence.
\<close>

theorem listWindowsItems_sorted:
  "(consistentCompare (localeCompare sh) \<and> listWindowsItems sh = Inr items \<longrightarrow>
      sorted_wrt (specTupleLe (localeCompare sh)) items
      \<and> (\<forall>i j. i < length items \<and> j < length items \<and> key (items ! j) < key (items ! i)
            \<longrightarrow> \<not> i < j))
   \<and> (get_window_actors sh = Some actors \<longrightarrow>
        listWindowsItems sh
          = Inr (sortBy (compareItems (localeCompare sh)) (map (itemOf sh) (eligible actors)))
        \<and> ((\<forall>w \<in> set (eligible actors). \<not> idFromClock w) \<longrightarrow>
             listWindowsItems (sh\<lparr>date_now := t\<rparr>) = listWindowsItems sh))"
proof (intro conjI impI)
  assume a: "consistentCompare (localeCompare sh) \<and> listWindowsItems sh = Inr items"
  then obtain actors' where items:
    "items = sortBy (compareItems (localeCompare sh)) (map (itemOf sh) (eligible actors'))"
    by (auto simp: listWindowsItems_def split: option.splits)
  from a have c: "consistentCompare (localeCompare sh)" by simp
  show s: "sorted_wrt (specTupleLe (localeCompare sh)) items"
    unfolding items
    by (rule sorted_wrt_sortBy [OF specTupleLe_trans [OF c] specTupleLe_total [OF c]
          compareItems_le_iff])
  show "\<forall>i j. i < length items \<and> j < length items \<and> key (items ! j) < key (items ! i)
            \<longrightarrow> \<not> i < j"
  proof (intro allI impI notI)
    fix i j
    assume b: "i < length items \<and> j < length items \<and> key (items ! j) < key (items ! i)"
      and "i < j"
    with s have "specTupleLe (localeCompare sh) (items ! i) (items ! j)"
      by (simp add: sorted_wrt_iff_nth_less)
    then have "key (items ! i) \<le> key (items ! j)" by (rule specTupleLe_key)
    with b show False by simp
  qed
next
  assume "get_window_actors sh = Some actors"
  then show "listWindowsItems sh
          = Inr (sortBy (compareItems (localeCompare sh)) (map (itemOf sh) (eligible actors)))"
    by (simp add: listWindowsItems_def)
next
  assume "get_window_actors sh = Some actors" "\<forall>w \<in> set (eligible actors). \<not> idFromClock w"
  then show "listWindowsItems (sh\<lparr>date_now := t\<rparr>) = listWindowsItems sh"
    by (rule listWindowsItems_clock)
qed

text \<open>The theorem on three windows that the window system enumerates as
  \<open>B1, A1, A2\<close>.\<close>

theorem listWindowsItems_sorted_witness:
  "listWindowsItems
       (sampleShell [sampleWindow 3 ''B'' 0, sampleWindow 1 ''A'' 0, sampleWindow 2 ''A'' 0] None)
     = Inr [\<lparr> key = 1, ident = ''0x1'', desk = 0, cls = ''a.a'', title = ''A'' \<rparr>,
            \<lparr> key = 2, ident = ''0x2'', desk = 0, cls = ''a.a'', title = ''A'' \<rparr>,
            \<lparr> key = 3, ident = ''0x3'', desk = 0, cls = ''b.b'', title = ''B'' \<rparr>]
   \<and> sorted_wrt (specTupleLe codeUnitCompare)
         [\<lparr> key = 1, ident = ''0x1'', desk = 0, cls = ''a.a'', title = ''A'' \<rparr>,
          \<lparr> key = 2, ident = ''0x2'', desk = 0, cls = ''a.a'', title = ''A'' \<rparr>,
          \<lparr> key = 3, ident = ''0x3'', desk = 0, cls = ''b.b'', title = ''B'' \<rparr>]
   \<and> listWindowsItems
         ((sampleShell [sampleWindow 3 ''B'' 0, sampleWindow 1 ''A'' 0, sampleWindow 2 ''A'' 0] None)
            \<lparr>date_now := 5\<rparr>)
       = listWindowsItems
           (sampleShell [sampleWindow 3 ''B'' 0, sampleWindow 1 ''A'' 0, sampleWindow 2 ''A'' 0] None)"
proof -
  define S where
    "S = sampleShell [sampleWindow 3 ''B'' 0, sampleWindow 1 ''A'' 0, sampleWindow 2 ''A'' 0] None"
  define items where
    "items = [\<lparr> key = 1, ident = ''0x1'', desk = 0, cls = ''a.a'', title = ''A'' \<rparr>,
              \<lparr> key = 2, ident = ''0x2'', desk = 0, cls = ''a.a'', title = ''A'' \<rparr>,
              \<lparr> key = 3, ident = ''0x3'', desk = 0, cls = ''b.b'', title = ''B'' \<rparr>]"
  note t = listWindowsItems_sorted [of S items
      "map Some [sampleWindow 3 ''B'' 0, sampleWindow 1 ''A'' 0, sampleWindow 2 ''A'' 0]" 5]
  have l: "listWindowsItems S = Inr items"
    unfolding S_def items_def
    by (simp add: listWindowsItems_def sampleShell_def sampleWindow_itemOf toHex_small
        hexDigit_def toLowerCase_def toLowerChar_def compareItems_def)
  have c: "consistentCompare (localeCompare S)"
    by (simp add: S_def sampleShell_actors consistentCompare_codeUnitCompare)
  have a: "get_window_actors S
      = Some (map Some [sampleWindow 3 ''B'' 0, sampleWindow 1 ''A'' 0, sampleWindow 2 ''A'' 0])"
    by (simp add: S_def sampleShell_actors)
  have n: "\<forall>w \<in> set (eligible
      (map Some [sampleWindow 3 ''B'' 0, sampleWindow 1 ''A'' 0, sampleWindow 2 ''A'' 0])).
        \<not> idFromClock w"
    by (simp add: sampleWindow_not_clock)
  from t l c have 1: "sorted_wrt (specTupleLe (localeCompare S)) items" by blast
  from t a n have 2: "listWindowsItems (S\<lparr>date_now := 5\<rparr>) = listWindowsItems S" by blast
  from l 1 2 show ?thesis
    unfolding S_def [symmetric] items_def [symmetric]
    by (simp add: S_def sampleShell_actors)
qed

text \<open>
  C1 as stated fails in its claim of determinism: a window without X window id
  and sequence number whose \<^verbatim>\<open>hash()\<close> raises takes its id, and through it
  its order key, from \<^verbatim>\<open>Date.now()\<close>. The same window-system state gives
  two different snapshots at two readings of the clock.
\<close>

theorem listWindowsItems_clock_counterexample:
  "listWindowsItems ((sampleShell [anonymousWindow] None)\<lparr>date_now := 1\<rparr>)
     = Inr [\<lparr> key = 1, ident = ''0x1'', desk = 0, cls = ''a.a'', title = ''A'' \<rparr>]
   \<and> listWindowsItems ((sampleShell [anonymousWindow] None)\<lparr>date_now := 2\<rparr>)
     = Inr [\<lparr> key = 2, ident = ''0x2'', desk = 0, cls = ''a.a'', title = ''A'' \<rparr>]"
  by (simp add: listWindowsItems_def sampleShell_def anonymousWindow_def sampleWindow_def
      sampleWorkspace_def isTasklistWindow_def itemOf_def creationOrderKey_def toHexId_def
      workspaceIndex_def classInstance_def truthy_def toHex_small hexDigit_def toLowerCase_def
      toLowerChar_def parseInt16_def signAndPrefixStripped_def isWhiteSpace_def isHexDigit_def
      hexVal_def hexValue_def)

section \<open>Claim C2: cycling within the class of the active window\<close>

text \<open>
  C2. Let the active window be a window of the registry, \<open>items\<close> the
  snapshot restricted to the windows on the active workspace or pinned that
  share its class key, and \<open>idx\<close> the position of the active window in
  \<open>items\<close>, or \<open>-1\<close> (one before the first) when it is not there and
  \<open>delta > 0\<close>, or \<open>0\<close> (the first) when it is not there otherwise. When
  \<open>items\<close> is not empty, \<open>_focusRelativeSameAppWindow(delta)\<close> activates the
  window at position \<open>(idx + delta) mod length\<close> of \<open>items\<close>: its outcome is
  that of \<open>_activateWindowById\<close> on that window's id.

  For the windows \<open>A1, A2, B1\<close> with order keys 1, 2, 3 and classes
  \<open>A, A, B\<close> on one workspace, Next from \<open>A1\<close> activates \<open>A2\<close> and Next from
  \<open>A2\<close> wraps back to \<open>A1\<close>.
\<close>

theorem focusRelativeSameAppWindow_cycles:
  "(activeWindowId sh \<noteq> []
     \<and> findWindowById sh (activeWindowId sh) = Inr (Some activeWin)
     \<and> listWindowsItems sh = Inr all
     \<and> items = filter (\<lambda>it. cls it = classInstance activeWin
                   \<and> (desk it = activeWorkspaceIndex sh \<or> desk it = - 1)) all
     \<and> items \<noteq> []
     \<and> idx = (case findIndex (hasId (activeWindowId sh)) items of
                 Some i \<Rightarrow> int i
               | None \<Rightarrow> if delta > 0 then - 1 else 0)
    \<longrightarrow> focusRelativeSameAppWindow sh delta
          = activateWindowById sh (ident (items ! nat ((idx + delta) mod int (length items)))))
   \<and> focusNextSameAppWindow
         (sampleShell [sampleWindow 1 ''A'' 0, sampleWindow 2 ''A'' 0, sampleWindow 3 ''B'' 0]
            (Some (sampleWindow 1 ''A'' 0))) = (True, [Activate 2])
   \<and> focusNextSameAppWindow
         (sampleShell [sampleWindow 1 ''A'' 0, sampleWindow 2 ''A'' 0, sampleWindow 3 ''B'' 0]
            (Some (sampleWindow 2 ''A'' 0))) = (True, [Activate 1])"
proof (intro conjI impI)
  assume "activeWindowId sh \<noteq> []
     \<and> findWindowById sh (activeWindowId sh) = Inr (Some activeWin)
     \<and> listWindowsItems sh = Inr all
     \<and> items = filter (\<lambda>it. cls it = classInstance activeWin
                   \<and> (desk it = activeWorkspaceIndex sh \<or> desk it = - 1)) all
     \<and> items \<noteq> []
     \<and> idx = (case findIndex (hasId (activeWindowId sh)) items of
                 Some i \<Rightarrow> int i
               | None \<Rightarrow> if delta > 0 then - 1 else 0)"
  then show "focusRelativeSameAppWindow sh delta
          = activateWindowById sh (ident (items ! nat ((idx + delta) mod int (length items))))"
    by (intro focusRelativeSameAppWindow_target) blast+
next
  show "focusNextSameAppWindow
         (sampleShell [sampleWindow 1 ''A'' 0, sampleWindow 2 ''A'' 0, sampleWindow 3 ''B'' 0]
            (Some (sampleWindow 1 ''A'' 0))) = (True, [Activate 2])"
    by (simp add: focusNextSameAppWindow_def focusRelativeSameAppWindow_def sample_eval)
next
  show "focusNextSameAppWindow
         (sampleShell [sampleWindow 1 ''A'' 0, sampleWindow 2 ''A'' 0, sampleWindow 3 ''B'' 0]
            (Some (sampleWindow 2 ''A'' 0))) = (True, [Activate 1])"
    by (simp add: focusNextSameAppWindow_def focusRelativeSameAppWindow_def sample_eval)
qed

text \<open>The theorem on the same three windows, stepping back from \<open>A1\<close>: the
  position wraps to the last window of the class, \<open>A2\<close>.\<close>

theorem focusRelativeSameAppWindow_cycles_witness:
  "activeWindowId
       (sampleShell [sampleWindow 1 ''A'' 0, sampleWindow 2 ''A'' 0, sampleWindow 3 ''B'' 0]
          (Some (sampleWindow 1 ''A'' 0))) = ''0x1''
   \<and> focusRelativeSameAppWindow
         (sampleShell [sampleWindow 1 ''A'' 0, sampleWindow 2 ''A'' 0, sampleWindow 3 ''B'' 0]
            (Some (sampleWindow 1 ''A'' 0))) (- 1)
       = activateWindowById
           (sampleShell [sampleWindow 1 ''A'' 0, sampleWindow 2 ''A'' 0, sampleWindow 3 ''B'' 0]
              (Some (sampleWindow 1 ''A'' 0))) ''0x2''
   \<and> activateWindowById
         (sampleShell [sampleWindow 1 ''A'' 0, sampleWindow 2 ''A'' 0, sampleWindow 3 ''B'' 0]
            (Some (sampleWindow 1 ''A'' 0))) ''0x2'' = (True, [Activate 2])"
proof -
  define S where "S = sampleShell
     [sampleWindow 1 ''A'' 0, sampleWindow 2 ''A'' 0, sampleWindow 3 ''B'' 0]
     (Some (sampleWindow 1 ''A'' 0))"
  define i1 where "i1 = \<lparr> key = 1, ident = ''0x1'', desk = 0, cls = ''a.a'', title = ''A'' \<rparr>"
  define i2 where "i2 = \<lparr> key = 2, ident = ''0x2'', desk = 0, cls = ''a.a'', title = ''A'' \<rparr>"
  define i3 where "i3 = \<lparr> key = 3, ident = ''0x3'', desk = 0, cls = ''b.b'', title = ''B'' \<rparr>"
  note t = focusRelativeSameAppWindow_cycles [of S "sampleWindow 1 ''A'' 0" "[i1, i2, i3]"
      "[i1, i2]" 0 "- 1"]
  have a: "activeWindowId S = ''0x1''"
    by (simp add: S_def sample_eval)
  have a': "activeWindowId S \<noteq> []"
    by (simp add: a)
  have f: "findWindowById S (activeWindowId S) = Inr (Some (sampleWindow 1 ''A'' 0))"
    unfolding a by (simp add: S_def sample_eval)
  have l: "listWindowsItems S = Inr [i1, i2, i3]"
    by (simp add: S_def i1_def i2_def i3_def sample_eval)
  have fl: "[i1, i2] = filter (\<lambda>it. cls it = classInstance (sampleWindow 1 ''A'' 0)
                   \<and> (desk it = activeWorkspaceIndex S \<or> desk it = - 1)) [i1, i2, i3]"
    by (simp add: S_def i1_def i2_def i3_def sample_eval)
  have ne: "[i1, i2] \<noteq> []"
    by simp
  have ix: "(0::int) = (case findIndex (hasId (activeWindowId S)) [i1, i2] of
                 Some i \<Rightarrow> int i
               | None \<Rightarrow> if (- 1 :: int) > 0 then - 1 else 0)"
    unfolding a by (simp add: i1_def i2_def sample_eval)
  have "focusRelativeSameAppWindow S (- 1)
          = activateWindowById S (ident ([i1, i2] ! nat ((0 + - 1) mod int (length [i1, i2]))))"
    using t a' f l fl ne ix by blast
  then have r: "focusRelativeSameAppWindow S (- 1) = activateWindowById S ''0x2''"
    by (simp add: i2_def)
  have v: "activateWindowById S ''0x2'' = (True, [Activate 2])"
    by (simp add: S_def sample_eval)
  from a r v show ?thesis
    unfolding S_def by blast
qed

section \<open>Claim C3: cycling to a window of another class\<close>

text \<open>
  C3. Let the active window be in the snapshot, \<open>inWs\<close> the snapshot
  restricted to the active workspace and the pinned windows, and \<open>idx\<close> the
  position of the active window in \<open>inWs\<close>, or, when it is not there, \<open>-1\<close>
  for a forward step and \<open>0\<close> for a backward one.
  \<^item> When \<open>inWs\<close> has more than one window,
    \<open>_focusRelativeOtherAppWindow(delta)\<close> activates the first window of the
    circuit from \<open>idx\<close> by \<open>delta\<close> whose class key differs from the active
    window's and is not the denylisted class; it returns false with no call
    made when the circuit has no such window.
  \<^item> When \<open>inWs\<close> is a single window, that window is activated if and only
    if its class key differs from the active one and is not the denylisted
    class; otherwise the result is false.
  \<^item> For \<open>A1, B1, CopyQ\<close> with \<open>A1\<close> active, Next lands on \<open>B1\<close>, and so
    does Prev, which meets the denylisted window first and passes over it.
  \<^item> For \<open>A1, B1, C1\<close> with \<open>B1\<close> active, the walk starts at \<open>B1\<close>: Next
    lands on \<open>C1\<close> and Prev on \<open>A1\<close>.
\<close>

theorem focusRelativeOtherAppWindow_scans:
  "(activeWindowId sh \<noteq> []
     \<and> listWindowsItems sh = Inr all
     \<and> find (hasId (activeWindowId sh)) all = Some activeFound
     \<and> inWs = filter (onWorkspace (activeWorkspaceIndex sh)) all
     \<and> inWs \<noteq> []
     \<and> idx = (case findIndex (hasId (activeWindowId sh)) inWs of
                Some i \<Rightarrow> int i
              | None \<Rightarrow> if delta > 0 then - 1 else 0)
    \<longrightarrow> (length inWs \<noteq> 1 \<longrightarrow>
          focusRelativeOtherAppWindow sh delta
            = (case find (\<lambda>c. cls c \<noteq> cls activeFound \<and> cls c \<noteq> COPYQ_CLS)
                         (specCircuit inWs idx delta) of
                 Some cand \<Rightarrow> activateWindowById sh (ident cand)
               | None \<Rightarrow> (False, [])))
       \<and> (\<forall>only. inWs = [only] \<longrightarrow>
             focusRelativeOtherAppWindow sh delta
               = (if cls only \<noteq> cls activeFound \<and> cls only \<noteq> COPYQ_CLS
                  then activateWindowById sh (ident only)
                  else (False, []))))
   \<and> focusNextOtherAppWindow
         (sampleShell [sampleWindow 1 ''A'' 0, sampleWindow 2 ''B'' 0, sampleWindow 3 ''copyq'' 0]
            (Some (sampleWindow 1 ''A'' 0))) = (True, [Activate 2])
   \<and> focusPrevOtherAppWindow
         (sampleShell [sampleWindow 1 ''A'' 0, sampleWindow 2 ''B'' 0, sampleWindow 3 ''copyq'' 0]
            (Some (sampleWindow 1 ''A'' 0))) = (True, [Activate 2])
   \<and> focusNextOtherAppWindow
         (sampleShell [sampleWindow 1 ''A'' 0, sampleWindow 2 ''B'' 0, sampleWindow 3 ''C'' 0]
            (Some (sampleWindow 2 ''B'' 0))) = (True, [Activate 3])
   \<and> focusPrevOtherAppWindow
         (sampleShell [sampleWindow 1 ''A'' 0, sampleWindow 2 ''B'' 0, sampleWindow 3 ''C'' 0]
            (Some (sampleWindow 2 ''B'' 0))) = (True, [Activate 1])"
proof (intro conjI impI allI)
  assume h: "activeWindowId sh \<noteq> []
     \<and> listWindowsItems sh = Inr all
     \<and> find (hasId (activeWindowId sh)) all = Some activeFound
     \<and> inWs = filter (onWorkspace (activeWorkspaceIndex sh)) all
     \<and> inWs \<noteq> []
     \<and> idx = (case findIndex (hasId (activeWindowId sh)) inWs of
                Some i \<Rightarrow> int i
              | None \<Rightarrow> if delta > 0 then - 1 else 0)"
  then have s: "idx = startIndex (activeWindowId sh) delta inWs"
    by (simp add: startIndex_def)
  from h s have t: "focusRelativeOtherAppWindow sh delta
     = (if length inWs = 1
        then (if cls (inWs ! 0) \<noteq> cls activeFound \<and> cls (inWs ! 0) \<noteq> COPYQ_CLS
              then activateWindowById sh (ident (inWs ! 0))
              else (False, []))
        else (case find (\<lambda>c. \<not> (cls c = COPYQ_CLS \<or> cls c = cls activeFound))
                     (specCircuit inWs idx delta) of
                Some cand \<Rightarrow> activateWindowById sh (ident cand)
              | None \<Rightarrow> (False, [])))"
    by (intro focusRelativeOtherAppWindow_target) blast+
  have p: "(\<lambda>c. \<not> (cls c = COPYQ_CLS \<or> cls c = cls activeFound))
            = (\<lambda>c. cls c \<noteq> cls activeFound \<and> cls c \<noteq> COPYQ_CLS)"
    by auto
  {
    assume "length inWs \<noteq> 1"
    then show "focusRelativeOtherAppWindow sh delta
            = (case find (\<lambda>c. cls c \<noteq> cls activeFound \<and> cls c \<noteq> COPYQ_CLS)
                         (specCircuit inWs idx delta) of
                 Some cand \<Rightarrow> activateWindowById sh (ident cand)
               | None \<Rightarrow> (False, []))"
      unfolding t p by simp
  }
  {
    fix only
    assume "inWs = [only]"
    then show "focusRelativeOtherAppWindow sh delta
               = (if cls only \<noteq> cls activeFound \<and> cls only \<noteq> COPYQ_CLS
                  then activateWindowById sh (ident only)
                  else (False, []))"
      unfolding t by simp
  }
next
  show "focusNextOtherAppWindow
         (sampleShell [sampleWindow 1 ''A'' 0, sampleWindow 2 ''B'' 0, sampleWindow 3 ''copyq'' 0]
            (Some (sampleWindow 1 ''A'' 0))) = (True, [Activate 2])"
    by (simp add: focusNextOtherAppWindow_def focusRelativeOtherAppWindow_def sample_eval)
next
  show "focusPrevOtherAppWindow
         (sampleShell [sampleWindow 1 ''A'' 0, sampleWindow 2 ''B'' 0, sampleWindow 3 ''copyq'' 0]
            (Some (sampleWindow 1 ''A'' 0))) = (True, [Activate 2])"
    by (simp add: focusPrevOtherAppWindow_def focusRelativeOtherAppWindow_def sample_eval)
next
  show "focusNextOtherAppWindow
         (sampleShell [sampleWindow 1 ''A'' 0, sampleWindow 2 ''B'' 0, sampleWindow 3 ''C'' 0]
            (Some (sampleWindow 2 ''B'' 0))) = (True, [Activate 3])"
    by (simp add: focusNextOtherAppWindow_def focusRelativeOtherAppWindow_def sample_eval)
next
  show "focusPrevOtherAppWindow
         (sampleShell [sampleWindow 1 ''A'' 0, sampleWindow 2 ''B'' 0, sampleWindow 3 ''C'' 0]
            (Some (sampleWindow 2 ''B'' 0))) = (True, [Activate 1])"
    by (simp add: focusPrevOtherAppWindow_def focusRelativeOtherAppWindow_def sample_eval)
qed

text \<open>The theorem on \<open>A1, B1, C1\<close> with \<open>B1\<close> active, where the walk starts
  at position 1 and reaches \<open>C1\<close> first, and on a workspace whose only window
  is \<open>B1\<close> while the active window \<open>A1\<close> is on another workspace, where the
  start position is the fallback \<open>-1\<close>.\<close>

theorem focusRelativeOtherAppWindow_scans_witness:
  "focusRelativeOtherAppWindow
       (sampleShell [sampleWindow 1 ''A'' 0, sampleWindow 2 ''B'' 0, sampleWindow 3 ''C'' 0]
          (Some (sampleWindow 2 ''B'' 0))) 1
     = activateWindowById
         (sampleShell [sampleWindow 1 ''A'' 0, sampleWindow 2 ''B'' 0, sampleWindow 3 ''C'' 0]
            (Some (sampleWindow 2 ''B'' 0))) ''0x3''
   \<and> activateWindowById
         (sampleShell [sampleWindow 1 ''A'' 0, sampleWindow 2 ''B'' 0, sampleWindow 3 ''C'' 0]
            (Some (sampleWindow 2 ''B'' 0))) ''0x3'' = (True, [Activate 3])
   \<and> focusRelativeOtherAppWindow
         (sampleShell [sampleWindow 1 ''A'' 1, sampleWindow 2 ''B'' 0]
            (Some (sampleWindow 1 ''A'' 1))) 1
       = activateWindowById
           (sampleShell [sampleWindow 1 ''A'' 1, sampleWindow 2 ''B'' 0]
              (Some (sampleWindow 1 ''A'' 1))) ''0x2''
   \<and> activateWindowById
         (sampleShell [sampleWindow 1 ''A'' 1, sampleWindow 2 ''B'' 0]
            (Some (sampleWindow 1 ''A'' 1))) ''0x2'' = (True, [Activate 2])"
proof -
  define S where "S = sampleShell
     [sampleWindow 1 ''A'' 0, sampleWindow 2 ''B'' 0, sampleWindow 3 ''C'' 0]
     (Some (sampleWindow 2 ''B'' 0))"
  define i1 where "i1 = \<lparr> key = 1, ident = ''0x1'', desk = 0, cls = ''a.a'', title = ''A'' \<rparr>"
  define i2 where "i2 = \<lparr> key = 2, ident = ''0x2'', desk = 0, cls = ''b.b'', title = ''B'' \<rparr>"
  define i3 where "i3 = \<lparr> key = 3, ident = ''0x3'', desk = 0, cls = ''c.c'', title = ''C'' \<rparr>"
  note t = focusRelativeOtherAppWindow_scans [of S "[i1, i2, i3]" i2 "[i1, i2, i3]" 1 1]
  have a: "activeWindowId S = ''0x2''"
    by (simp add: S_def sample_eval)
  have a': "activeWindowId S \<noteq> []"
    by (simp add: a)
  have l: "listWindowsItems S = Inr [i1, i2, i3]"
    by (simp add: S_def i1_def i2_def i3_def sample_eval)
  have f: "find (hasId (activeWindowId S)) [i1, i2, i3] = Some i2"
    unfolding a by (simp add: i1_def i2_def sample_eval)
  have fl: "[i1, i2, i3] = filter (onWorkspace (activeWorkspaceIndex S)) [i1, i2, i3]"
    by (simp add: S_def i1_def i2_def i3_def sample_eval)
  have ne: "[i1, i2, i3] \<noteq> []" "length [i1, i2, i3] \<noteq> 1"
    by simp_all
  have ix: "(1::int) = (case findIndex (hasId (activeWindowId S)) [i1, i2, i3] of
                Some i \<Rightarrow> int i
              | None \<Rightarrow> if (1::int) > 0 then - 1 else 0)"
    unfolding a by (simp add: i1_def i2_def sample_eval)
  have "focusRelativeOtherAppWindow S 1
            = (case find (\<lambda>c. cls c \<noteq> cls i2 \<and> cls c \<noteq> COPYQ_CLS)
                         (specCircuit [i1, i2, i3] 1 1) of
                 Some cand \<Rightarrow> activateWindowById S (ident cand)
               | None \<Rightarrow> (False, []))"
    using t a' l f fl ne ix by blast
  moreover have "specCircuit [i1, i2, i3] 1 1 = [i3, i1, i2]"
    by (simp add: specCircuit_def upt_rec)
  ultimately have 1: "focusRelativeOtherAppWindow S 1 = activateWindowById S ''0x3''"
    by (simp add: i1_def i2_def i3_def COPYQ_CLS_def)
  have p1: "activateWindowById S ''0x3'' = (True, [Activate 3])"
    by (simp add: S_def sample_eval)
  define T where "T = sampleShell [sampleWindow 1 ''A'' 1, sampleWindow 2 ''B'' 0]
     (Some (sampleWindow 1 ''A'' 1))"
  define j1 where "j1 = \<lparr> key = 1, ident = ''0x1'', desk = 1, cls = ''a.a'', title = ''A'' \<rparr>"
  note u = focusRelativeOtherAppWindow_scans [of T "[j1, i2]" j1 "[i2]" "- 1" 1]
  have b: "activeWindowId T = ''0x1''"
    by (simp add: T_def sample_eval)
  have b': "activeWindowId T \<noteq> []"
    by (simp add: b)
  have m: "listWindowsItems T = Inr [j1, i2]"
    by (simp add: T_def j1_def i2_def sample_eval)
  have g: "find (hasId (activeWindowId T)) [j1, i2] = Some j1"
    unfolding b by (simp add: j1_def sample_eval)
  have gl: "[i2] = filter (onWorkspace (activeWorkspaceIndex T)) [j1, i2]"
    by (simp add: T_def j1_def i2_def sample_eval)
  have me: "[i2] \<noteq> []"
    by simp
  have jx: "(- 1::int) = (case findIndex (hasId (activeWindowId T)) [i2] of
                Some i \<Rightarrow> int i
              | None \<Rightarrow> if (1::int) > 0 then - 1 else 0)"
    unfolding b by (simp add: i2_def sample_eval)
  have "focusRelativeOtherAppWindow T 1
               = (if cls i2 \<noteq> cls j1 \<and> cls i2 \<noteq> COPYQ_CLS
                  then activateWindowById T (ident i2)
                  else (False, []))"
    using u b' m g gl me jx by blast
  then have 2: "focusRelativeOtherAppWindow T 1 = activateWindowById T ''0x2''"
    by (simp add: j1_def i2_def COPYQ_CLS_def)
  have 3: "activateWindowById T ''0x2'' = (True, [Activate 2])"
    by (simp add: T_def sample_eval)
  from 1 p1 2 3 show ?thesis
    unfolding S_def T_def by blast
qed

section \<open>Claim C4: cycling to any window\<close>

text \<open>
  C4. With \<open>inWs\<close> and \<open>idx\<close> as before, \<open>_focusRelativeAnyAppWindow(delta)\<close>
  activates the first window of the circuit from \<open>idx\<close> by \<open>delta\<close> that is
  neither of the denylisted class nor has the active window's id, and returns
  false with no call made when the circuit has none; so a workspace whose only
  window is the active one gives false. On the two windows \<open>A1, B1\<close>, Next
  from \<open>A1\<close> activates \<open>B1\<close> and Next from \<open>B1\<close> wraps back to \<open>A1\<close>. On
  \<open>A1, B1, C1\<close> with \<open>B1\<close> active the walk starts at \<open>B1\<close>: Next activates
  \<open>C1\<close> and Prev activates \<open>A1\<close>.
\<close>

theorem focusRelativeAnyAppWindow_scans:
  "(activeWindowId sh \<noteq> []
     \<and> listWindowsItems sh = Inr all
     \<and> inWs = filter (onWorkspace (activeWorkspaceIndex sh)) all
     \<and> inWs \<noteq> []
     \<and> idx = (case findIndex (hasId (activeWindowId sh)) inWs of
                Some i \<Rightarrow> int i
              | None \<Rightarrow> if delta > 0 then - 1 else 0)
    \<longrightarrow> focusRelativeAnyAppWindow sh delta
          = (case find (\<lambda>c. cls c \<noteq> COPYQ_CLS \<and> \<not> hasId (activeWindowId sh) c)
                       (specCircuit inWs idx delta) of
               Some cand \<Rightarrow> activateWindowById sh (ident cand)
             | None \<Rightarrow> (False, []))
       \<and> (\<forall>only. inWs = [only] \<and> hasId (activeWindowId sh) only \<longrightarrow>
             focusRelativeAnyAppWindow sh delta = (False, [])))
   \<and> focusNextAnyAppWindow
         (sampleShell [sampleWindow 1 ''A'' 0, sampleWindow 2 ''B'' 0]
            (Some (sampleWindow 1 ''A'' 0))) = (True, [Activate 2])
   \<and> focusNextAnyAppWindow
         (sampleShell [sampleWindow 1 ''A'' 0, sampleWindow 2 ''B'' 0]
            (Some (sampleWindow 2 ''B'' 0))) = (True, [Activate 1])
   \<and> focusNextAnyAppWindow
         (sampleShell [sampleWindow 1 ''A'' 0, sampleWindow 2 ''B'' 0, sampleWindow 3 ''C'' 0]
            (Some (sampleWindow 2 ''B'' 0))) = (True, [Activate 3])
   \<and> focusPrevAnyAppWindow
         (sampleShell [sampleWindow 1 ''A'' 0, sampleWindow 2 ''B'' 0, sampleWindow 3 ''C'' 0]
            (Some (sampleWindow 2 ''B'' 0))) = (True, [Activate 1])"
proof (intro conjI impI allI)
  assume h: "activeWindowId sh \<noteq> []
     \<and> listWindowsItems sh = Inr all
     \<and> inWs = filter (onWorkspace (activeWorkspaceIndex sh)) all
     \<and> inWs \<noteq> []
     \<and> idx = (case findIndex (hasId (activeWindowId sh)) inWs of
                Some i \<Rightarrow> int i
              | None \<Rightarrow> if delta > 0 then - 1 else 0)"
  then have s: "idx = startIndex (activeWindowId sh) delta inWs"
    by (simp add: startIndex_def)
  from h s have t: "focusRelativeAnyAppWindow sh delta
     = (case find (\<lambda>c. \<not> (cls c = COPYQ_CLS \<or> hasId (activeWindowId sh) c))
                  (specCircuit inWs idx delta) of
          Some cand \<Rightarrow> activateWindowById sh (ident cand)
        | None \<Rightarrow> (False, []))"
    by (intro focusRelativeAnyAppWindow_target) blast+
  have p: "(\<lambda>c. \<not> (cls c = COPYQ_CLS \<or> hasId (activeWindowId sh) c))
            = (\<lambda>c. cls c \<noteq> COPYQ_CLS \<and> \<not> hasId (activeWindowId sh) c)"
    by auto
  show "focusRelativeAnyAppWindow sh delta
          = (case find (\<lambda>c. cls c \<noteq> COPYQ_CLS \<and> \<not> hasId (activeWindowId sh) c)
                       (specCircuit inWs idx delta) of
               Some cand \<Rightarrow> activateWindowById sh (ident cand)
             | None \<Rightarrow> (False, []))"
    unfolding t p ..
  {
    fix only
    assume "inWs = [only] \<and> hasId (activeWindowId sh) only"
    then show "focusRelativeAnyAppWindow sh delta = (False, [])"
      unfolding t by (simp add: specCircuit_single)
  }
next
  show "focusNextAnyAppWindow
         (sampleShell [sampleWindow 1 ''A'' 0, sampleWindow 2 ''B'' 0]
            (Some (sampleWindow 1 ''A'' 0))) = (True, [Activate 2])"
    by (simp add: focusNextAnyAppWindow_def focusRelativeAnyAppWindow_def sample_eval)
next
  show "focusNextAnyAppWindow
         (sampleShell [sampleWindow 1 ''A'' 0, sampleWindow 2 ''B'' 0]
            (Some (sampleWindow 2 ''B'' 0))) = (True, [Activate 1])"
    by (simp add: focusNextAnyAppWindow_def focusRelativeAnyAppWindow_def sample_eval)
next
  show "focusNextAnyAppWindow
         (sampleShell [sampleWindow 1 ''A'' 0, sampleWindow 2 ''B'' 0, sampleWindow 3 ''C'' 0]
            (Some (sampleWindow 2 ''B'' 0))) = (True, [Activate 3])"
    by (simp add: focusNextAnyAppWindow_def focusRelativeAnyAppWindow_def sample_eval)
next
  show "focusPrevAnyAppWindow
         (sampleShell [sampleWindow 1 ''A'' 0, sampleWindow 2 ''B'' 0, sampleWindow 3 ''C'' 0]
            (Some (sampleWindow 2 ''B'' 0))) = (True, [Activate 1])"
    by (simp add: focusPrevAnyAppWindow_def focusRelativeAnyAppWindow_def sample_eval)
qed

text \<open>The theorem on \<open>A1, B1, C1\<close> with \<open>B1\<close> active, stepping forward from
  position 1 to \<open>C1\<close> and backward to \<open>A1\<close>, and on a workspace whose only
  window is the active one.\<close>

theorem focusRelativeAnyAppWindow_scans_witness:
  "focusRelativeAnyAppWindow
       (sampleShell [sampleWindow 1 ''A'' 0, sampleWindow 2 ''B'' 0, sampleWindow 3 ''C'' 0]
          (Some (sampleWindow 2 ''B'' 0))) 1
     = activateWindowById
         (sampleShell [sampleWindow 1 ''A'' 0, sampleWindow 2 ''B'' 0, sampleWindow 3 ''C'' 0]
            (Some (sampleWindow 2 ''B'' 0))) ''0x3''
   \<and> focusRelativeAnyAppWindow
       (sampleShell [sampleWindow 1 ''A'' 0, sampleWindow 2 ''B'' 0, sampleWindow 3 ''C'' 0]
          (Some (sampleWindow 2 ''B'' 0))) (- 1)
     = activateWindowById
         (sampleShell [sampleWindow 1 ''A'' 0, sampleWindow 2 ''B'' 0, sampleWindow 3 ''C'' 0]
            (Some (sampleWindow 2 ''B'' 0))) ''0x1''
   \<and> activateWindowById
         (sampleShell [sampleWindow 1 ''A'' 0, sampleWindow 2 ''B'' 0, sampleWindow 3 ''C'' 0]
            (Some (sampleWindow 2 ''B'' 0))) ''0x3'' = (True, [Activate 3])
   \<and> activateWindowById
         (sampleShell [sampleWindow 1 ''A'' 0, sampleWindow 2 ''B'' 0, sampleWindow 3 ''C'' 0]
            (Some (sampleWindow 2 ''B'' 0))) ''0x1'' = (True, [Activate 1])
   \<and> focusRelativeAnyAppWindow
         (sampleShell [sampleWindow 1 ''A'' 0] (Some (sampleWindow 1 ''A'' 0))) 1 = (False, [])"
proof -
  define S where "S = sampleShell
     [sampleWindow 1 ''A'' 0, sampleWindow 2 ''B'' 0, sampleWindow 3 ''C'' 0]
     (Some (sampleWindow 2 ''B'' 0))"
  define i1 where "i1 = \<lparr> key = 1, ident = ''0x1'', desk = 0, cls = ''a.a'', title = ''A'' \<rparr>"
  define i2 where "i2 = \<lparr> key = 2, ident = ''0x2'', desk = 0, cls = ''b.b'', title = ''B'' \<rparr>"
  define i3 where "i3 = \<lparr> key = 3, ident = ''0x3'', desk = 0, cls = ''c.c'', title = ''C'' \<rparr>"
  note t = focusRelativeAnyAppWindow_scans [of S "[i1, i2, i3]" "[i1, i2, i3]" 1 1]
  note t' = focusRelativeAnyAppWindow_scans [of S "[i1, i2, i3]" "[i1, i2, i3]" 1 "- 1"]
  have a: "activeWindowId S = ''0x2''"
    by (simp add: S_def sample_eval)
  have a': "activeWindowId S \<noteq> []"
    by (simp add: a)
  have l: "listWindowsItems S = Inr [i1, i2, i3]"
    by (simp add: S_def i1_def i2_def i3_def sample_eval)
  have fl: "[i1, i2, i3] = filter (onWorkspace (activeWorkspaceIndex S)) [i1, i2, i3]"
    by (simp add: S_def i1_def i2_def i3_def sample_eval)
  have ne: "[i1, i2, i3] \<noteq> []"
    by simp
  have ix: "(1::int) = (case findIndex (hasId (activeWindowId S)) [i1, i2, i3] of
                Some i \<Rightarrow> int i
              | None \<Rightarrow> if (1::int) > 0 then - 1 else 0)"
    unfolding a by (simp add: i1_def i2_def sample_eval)
  have ix': "(1::int) = (case findIndex (hasId (activeWindowId S)) [i1, i2, i3] of
                Some i \<Rightarrow> int i
              | None \<Rightarrow> if (- 1::int) > 0 then - 1 else 0)"
    unfolding a by (simp add: i1_def i2_def sample_eval)
  have "focusRelativeAnyAppWindow S 1
          = (case find (\<lambda>c. cls c \<noteq> COPYQ_CLS \<and> \<not> hasId (activeWindowId S) c)
                       (specCircuit [i1, i2, i3] 1 1) of
               Some cand \<Rightarrow> activateWindowById S (ident cand)
             | None \<Rightarrow> (False, []))"
    using t a' l fl ne ix by blast
  moreover have "specCircuit [i1, i2, i3] 1 1 = [i3, i1, i2]"
    by (simp add: specCircuit_def upt_rec)
  ultimately have 1: "focusRelativeAnyAppWindow S 1 = activateWindowById S ''0x3''"
    unfolding a by (simp add: i1_def i2_def i3_def COPYQ_CLS_def sample_eval)
  have "focusRelativeAnyAppWindow S (- 1)
          = (case find (\<lambda>c. cls c \<noteq> COPYQ_CLS \<and> \<not> hasId (activeWindowId S) c)
                       (specCircuit [i1, i2, i3] 1 (- 1)) of
               Some cand \<Rightarrow> activateWindowById S (ident cand)
             | None \<Rightarrow> (False, []))"
    using t' a' l fl ne ix' by blast
  moreover have "specCircuit [i1, i2, i3] 1 (- 1) = [i1, i3, i2]"
    by (simp add: specCircuit_def upt_rec)
  ultimately have p1: "focusRelativeAnyAppWindow S (- 1) = activateWindowById S ''0x1''"
    unfolding a by (simp add: i1_def i2_def i3_def COPYQ_CLS_def sample_eval)
  have e: "activateWindowById S ''0x3'' = (True, [Activate 3])"
    "activateWindowById S ''0x1'' = (True, [Activate 1])"
    by (simp_all add: S_def sample_eval)
  define T where "T = sampleShell [sampleWindow 1 ''A'' 0] (Some (sampleWindow 1 ''A'' 0))"
  note u = focusRelativeAnyAppWindow_scans [of T "[i1]" "[i1]" 0 1]
  have b: "activeWindowId T = ''0x1''"
    by (simp add: T_def sample_eval)
  have b': "activeWindowId T \<noteq> []"
    by (simp add: b)
  have m: "listWindowsItems T = Inr [i1]"
    by (simp add: T_def i1_def sample_eval)
  have gl: "[i1] = filter (onWorkspace (activeWorkspaceIndex T)) [i1]"
    by (simp add: T_def i1_def sample_eval)
  have me: "[i1] \<noteq> []"
    by simp
  have jx: "(0::int) = (case findIndex (hasId (activeWindowId T)) [i1] of
                Some i \<Rightarrow> int i
              | None \<Rightarrow> if (1::int) > 0 then - 1 else 0)"
    unfolding b by (simp add: i1_def sample_eval)
  have h: "hasId (activeWindowId T) i1"
    unfolding b by (simp add: i1_def sample_eval)
  have 2: "focusRelativeAnyAppWindow T 1 = (False, [])"
    using u b' m gl me jx h by blast
  from 1 p1 e 2 show ?thesis
    unfolding S_def T_def by blast
qed

section \<open>Claim C5: normalising an id\<close>

text \<open>
  C5, as the code has it. \<open>normalizeIdString\<close> trims the input, lowers its
  case and strips one \<^verbatim>\<open>0x\<close>; what \<^verbatim>\<open>parseInt\<close> then reads is the
  leading run of hexadecimal digits.
  \<^item> Any non-empty string of hexadecimal digits \<open>u\<close> whose value is below
    \<open>2 ^ 53\<close>, in either case, with or without a \<^verbatim>\<open>0x\<close> or \<^verbatim>\<open>0X\<close>
    prefix and with ASCII white space around it, is accepted and gives
    \<^verbatim>\<open>0x\<close> followed by the lowercase digits of its value without leading
    zeros; a case variant of the digits of \<open>n\<close> has the value \<open>n\<close>. From
    \<open>2 ^ 53\<close> on \<^verbatim>\<open>parseInt\<close> rounds to a double, and the digits that
    come back are those of the rounded value: the statement stops there.
  \<^item> For an input of ASCII characters, the result is invalid exactly when,
    after that stripping and after the sign and the second \<^verbatim>\<open>0x\<close> that
    \<^verbatim>\<open>parseInt\<close> itself accepts, no hexadecimal digit stands first.
    Characters after the leading digits are ignored, not rejected.
  \<^item> For a window with a non-zero native X window id \<open>xid\<close> below \<open>2 ^ 53\<close>,
    the resolver emits \<^verbatim>\<open>0x\<close> and the digits of \<open>xid\<close>, and normalising
    that id gives it back.
\<close>

theorem normalizeIdString_canonical:
  "(u \<noteq> [] \<and> (\<forall>c \<in> set u. isHexDigit c) \<and> hexValue u < 2 ^ 53
      \<and> (pre = [] \<or> pre = ''0x'' \<or> pre = ''0X'')
      \<and> (\<forall>c \<in> set ws1. isWhiteSpace c) \<and> (\<forall>c \<in> set ws2. isWhiteSpace c)
    \<longrightarrow> normalizeIdString (ws1 @ pre @ u @ ws2) = Some (''0x'' @ toHex (hexValue u))
        \<and> (toLowerCase u = toHex n \<longrightarrow> hexValue u = n))
   \<and> ((\<forall>c \<in> set s. isAscii c)
    \<longrightarrow> (normalizeIdString s = None \<longleftrightarrow>
          (case signAndPrefixStripped
                  (let t = toLowerCase (trim s) in if startsWith t ''0x'' then drop 2 t else t) of
             [] \<Rightarrow> True
           | c # cs \<Rightarrow> \<not> isHexDigit c)))
   \<and> (get_xwindow w = Returns xid \<and> xid \<noteq> 0 \<and> xid < 2 ^ 53
    \<longrightarrow> toHexId sh w = ''0x'' @ toHex xid
        \<and> normalizeIdString (toHexId sh w) = Some (toHexId sh w))"
proof (intro conjI impI)
  assume a: "u \<noteq> [] \<and> (\<forall>c \<in> set u. isHexDigit c) \<and> hexValue u < 2 ^ 53
      \<and> (pre = [] \<or> pre = ''0x'' \<or> pre = ''0X'')
      \<and> (\<forall>c \<in> set ws1. isWhiteSpace c) \<and> (\<forall>c \<in> set ws2. isWhiteSpace c)"
  then show "normalizeIdString (ws1 @ pre @ u @ ws2) = Some (''0x'' @ toHex (hexValue u))"
    by (intro normalizeIdString_numeral) simp_all
  assume "toLowerCase u = toHex n"
  then show "hexValue u = n"
    using hexValue_toLowerCase [of u] toHex_digits [of _ n] by (simp add: hexValue_toHex)
next
  show "normalizeIdString s = None \<longleftrightarrow>
        (case signAndPrefixStripped
                (let t = toLowerCase (trim s) in if startsWith t ''0x'' then drop 2 t else t) of
           [] \<Rightarrow> True
         | c # cs \<Rightarrow> \<not> isHexDigit c)"
    by (rule normalizeIdString_None_iff)
next
  assume "get_xwindow w = Returns xid \<and> xid \<noteq> 0 \<and> xid < 2 ^ 53"
  then show "toHexId sh w = ''0x'' @ toHex xid"
    by (simp add: toHexId_native)
  then show "normalizeIdString (toHexId sh w) = Some (toHexId sh w)"
    by (simp only: normalizeIdString_toHex)
qed

text \<open>The theorem at \<^verbatim>\<open>" 0X3FA2 "\<close>, at \<^verbatim>\<open>"zz"\<close> and at a window whose
  X window id is \<open>0x3fa2\<close>.\<close>

theorem normalizeIdString_canonical_witness:
  "normalizeIdString '' 0X3FA2 '' = Some ''0x3fa2''
   \<and> normalizeIdString ''zz'' = None
   \<and> toHexId (sampleShell [] None) (sampleWindow 16290 ''A'' 0) = ''0x3fa2''
   \<and> normalizeIdString (toHexId (sampleShell [] None) (sampleWindow 16290 ''A'' 0)) = Some ''0x3fa2''"
proof -
  note t = normalizeIdString_canonical [of "''3FA2''" "''0X''" "'' ''" "'' ''" 16290 "''zz''"
        "sampleWindow 16290 ''A'' 0" 16290 "sampleShell [] None"]
  have h: "hexValue ''3FA2'' = 16290" "toHex 16290 = ''3fa2''"
    by (simp_all add: hexValue_def hexVal_def toHex.simps hexDigit_def)
  have a: "''3FA2'' \<noteq> [] \<and> (\<forall>c \<in> set ''3FA2''. isHexDigit c) \<and> hexValue ''3FA2'' < 2 ^ 53
      \<and> (''0X'' = [] \<or> ''0X'' = ''0x'' \<or> ''0X'' = ''0X'')
      \<and> (\<forall>c \<in> set '' ''. isWhiteSpace c) \<and> (\<forall>c \<in> set '' ''. isWhiteSpace c)"
    unfolding h by (simp add: isHexDigit_def hexVal_def isWhiteSpace_def)
  from t a have "normalizeIdString ('' '' @ ''0X'' @ ''3FA2'' @ '' '') = Some (''0x'' @ toHex (hexValue ''3FA2''))"
    by blast
  then have 1: "normalizeIdString '' 0X3FA2 '' = Some ''0x3fa2''"
    by (simp add: h)
  have z: "signAndPrefixStripped
             (let t = toLowerCase (trim ''zz'') in if startsWith t ''0x'' then drop 2 t else t) = ''zz''"
     "\<not> isHexDigit CHR ''z''"
    by (simp_all add: signAndPrefixStripped_def trim_def toLowerCase_def toLowerChar_def
          isWhiteSpace_def isHexDigit_def hexVal_def)
  have asc: "\<forall>c \<in> set ''zz''. isAscii c"
    by (simp add: isAscii_def)
  from t asc have "normalizeIdString ''zz'' = None \<longleftrightarrow>
          (case signAndPrefixStripped
                  (let t = toLowerCase (trim ''zz'') in if startsWith t ''0x'' then drop 2 t else t) of
             [] \<Rightarrow> True
           | c # cs \<Rightarrow> \<not> isHexDigit c)"
    by blast
  then have 2: "normalizeIdString ''zz'' = None"
    by (simp only: z list.case) simp
  have x: "get_xwindow (sampleWindow 16290 ''A'' 0) = Returns 16290 \<and> (16290::nat) \<noteq> 0
             \<and> (16290::nat) < 2 ^ 53"
    by (simp add: sampleWindow_def)
  from t x have "toHexId (sampleShell [] None) (sampleWindow 16290 ''A'' 0) = ''0x'' @ toHex 16290
        \<and> normalizeIdString (toHexId (sampleShell [] None) (sampleWindow 16290 ''A'' 0))
           = Some (toHexId (sampleShell [] None) (sampleWindow 16290 ''A'' 0))"
    by blast
  then have 3: "toHexId (sampleShell [] None) (sampleWindow 16290 ''A'' 0) = ''0x3fa2''
   \<and> normalizeIdString (toHexId (sampleShell [] None) (sampleWindow 16290 ''A'' 0)) = Some ''0x3fa2''"
    unfolding h by (elim conjE) simp
  from 1 2 3 show ?thesis by blast
qed

text \<open>
  C5 as stated fails: \<^verbatim>\<open>"12zz"\<close> is not a hexadecimal numeral, and it is
  not signalled invalid; \<^verbatim>\<open>parseInt\<close> reads \<^verbatim>\<open>12\<close> and drops the rest.
\<close>

theorem normalizeIdString_trailing_counterexample:
  "\<not> specHexNumeral ''12zz'' \<and> normalizeIdString ''12zz'' = Some ''0x12''"
  by code_simp

section \<open>Claim C6: the threshold of the launch tracker\<close>

text \<open>
  C6. When \<open>_launchHere\<close> has spawned the command, the \<open>maxKey\<close> it keeps
  is the greatest order key of the snapshot taken before the spawn, and 0 for
  an empty snapshot. Whatever events follow, every window that is treated as
  the launched one was announced by \<^verbatim>\<open>window-created\<close> with an order key
  above \<open>maxKey\<close>. A window announced with an order key of at most \<open>maxKey\<close>
  leaves the watch as it was, whatever its class: it is not matched, and no
  class-change subscription is made for it.
\<close>

theorem launchHere_threshold:
  "(launchHere sh path0 appId0 = Inr (True, Some lw) \<and> listWindowsItems sh = Inr currentItems
    \<longrightarrow> (\<forall>it \<in> set currentItems. key it \<le> maxKey lw)
       \<and> (currentItems \<noteq> [] \<longrightarrow> maxKey lw \<in> key ` set currentItems)
       \<and> (currentItems = [] \<longrightarrow> maxKey lw = 0)
       \<and> (\<forall>evs. \<forall>h \<in> set (performed (runEvents lw evs)). createdAbove (maxKey lw) evs h))
   \<and> (creationOrderKey sh' win \<le> maxKey lw' \<longrightarrow> deliver lw' (WindowCreated sh' win) = lw')"
proof (intro conjI impI allI)
  assume a: "launchHere sh path0 appId0 = Inr (True, Some lw) \<and> listWindowsItems sh = Inr currentItems"
  note w = launchHere_watch [OF a [THEN conjunct1] a [THEN conjunct2]]
  show "\<forall>it \<in> set currentItems. key it \<le> maxKey lw"
    by (simp add: w(1) maxKeyOf_ge)
  show "maxKey lw \<in> key ` set currentItems" if "currentItems \<noteq> []"
    using that by (simp add: w(1) maxKeyOf_in)
  show "maxKey lw = 0" if "currentItems = []"
    using that by (simp add: w(1) maxKeyOf_Nil)
  show "\<forall>h \<in> set (performed (runEvents lw evs)). createdAbove (maxKey lw) evs h" for evs
    using runEvents_created [of lw "[]" evs] by (simp add: w(2,3))
next
  assume "creationOrderKey sh' win \<le> maxKey lw'"
  then show "deliver lw' (WindowCreated sh' win) = lw'"
    by (simp add: onWindowCreated_low)
qed

text \<open>
  The theorem on a launch beside windows with order keys 1, 2, 3: a window of
  the expected class with key 2 is ignored, a window with key 5 and another
  class is watched, and it is matched when its class changes to the expected
  one.
\<close>

theorem launchHere_threshold_witness:
  "launchHere
       (sampleShell [sampleWindow 1 ''A'' 0, sampleWindow 2 ''A'' 0, sampleWindow 3 ''B'' 0] None)
       ''xterm'' ''X.X''
     = Inr (True,
            Some \<lparr> maxKey = 3, path = ''xterm'', appId = ''X.X'', handlerConnected = True,
                   timeoutPending = True, notifyConnected = [], subTimeouts = [],
                   resizeTimeouts = [], nextId = 0, performed = [] \<rparr>)
   \<and> performed
         (runEvents
            \<lparr> maxKey = 3, path = ''xterm'', appId = ''X.X'', handlerConnected = True,
              timeoutPending = True, notifyConnected = [], subTimeouts = [],
              resizeTimeouts = [], nextId = 0, performed = [] \<rparr>
            [WindowCreated (sampleShell [] None) (sampleWindow 2 ''X'' 0),
             WindowCreated (sampleShell [] None) (sampleWindow 5 ''Y'' 0),
             WmClassChanged (sampleShell [] None) (sampleWindow 5 ''X'' 0)]) = [5]
   \<and> createdAbove 3
         [WindowCreated (sampleShell [] None) (sampleWindow 2 ''X'' 0),
          WindowCreated (sampleShell [] None) (sampleWindow 5 ''Y'' 0),
          WmClassChanged (sampleShell [] None) (sampleWindow 5 ''X'' 0)] 5
   \<and> deliver
         \<lparr> maxKey = 3, path = ''xterm'', appId = ''X.X'', handlerConnected = True,
           timeoutPending = True, notifyConnected = [], subTimeouts = [],
           resizeTimeouts = [], nextId = 0, performed = [] \<rparr>
         (WindowCreated (sampleShell [] None) (sampleWindow 2 ''X'' 0))
       = \<lparr> maxKey = 3, path = ''xterm'', appId = ''X.X'', handlerConnected = True,
           timeoutPending = True, notifyConnected = [], subTimeouts = [],
           resizeTimeouts = [], nextId = 0, performed = [] \<rparr>"
proof -
  define S where
    "S = sampleShell [sampleWindow 1 ''A'' 0, sampleWindow 2 ''A'' 0, sampleWindow 3 ''B'' 0] None"
  define E where "E = sampleShell [] None"
  define lw0 where
    "lw0 = \<lparr> maxKey = 3, path = ''xterm'', appId = ''X.X'', handlerConnected = True,
             timeoutPending = True, notifyConnected = [], subTimeouts = [],
             resizeTimeouts = [], nextId = 0, performed = [] \<rparr>"
  define evs where
    "evs = [WindowCreated E (sampleWindow 2 ''X'' 0), WindowCreated E (sampleWindow 5 ''Y'' 0),
            WmClassChanged E (sampleWindow 5 ''X'' 0)]"
  define items where
    "items = [\<lparr> key = 1, ident = ''0x1'', desk = 0, cls = ''a.a'', title = ''A'' \<rparr>,
              \<lparr> key = 2, ident = ''0x2'', desk = 0, cls = ''a.a'', title = ''A'' \<rparr>,
              \<lparr> key = 3, ident = ''0x3'', desk = 0, cls = ''b.b'', title = ''B'' \<rparr>]"
  note t = launchHere_threshold [of S "''xterm''" "''X.X''" lw0 items E "sampleWindow 2 ''X'' 0" lw0]
  have l: "listWindowsItems S = Inr items"
    by (simp add: S_def items_def sample_eval)
  have 1: "launchHere S ''xterm'' ''X.X'' = Inr (True, Some lw0)"
    unfolding launchHere_def l by (simp add: S_def lw0_def items_def sampleShell_def maxKeyOf_def)
  have 2: "performed (runEvents lw0 evs) = [5]"
    by (simp add: lw0_def evs_def E_def launch_eval sample_eval)
  from t 1 l have "\<forall>es. \<forall>h \<in> set (performed (runEvents lw0 es)). createdAbove (maxKey lw0) es h"
    by blast
  then have "\<forall>h \<in> set (performed (runEvents lw0 evs)). createdAbove (maxKey lw0) evs h"
    by blast
  then have 3: "createdAbove 3 evs 5"
    unfolding 2 by (simp add: lw0_def)
  have "creationOrderKey E (sampleWindow 2 ''X'' 0) \<le> maxKey lw0"
    by (simp add: lw0_def sampleWindow_key)
  with t have 4: "deliver lw0 (WindowCreated E (sampleWindow 2 ''X'' 0)) = lw0"
    by blast
  from 1 2 3 4 show ?thesis
    unfolding S_def E_def lw0_def evs_def by blast
qed

section \<open>Claim C7: what the launch tracker releases\<close>

text \<open>
  C7, as the code has it.
  \<^item> A match at creation, when \<open>performActions\<close> returns, disconnects the
    \<^verbatim>\<open>window-created\<close> subscription and removes the 10-second timer in the
    same callback; from then on no \<^verbatim>\<open>window-created\<close> event reaches the
    watch, so no window created later is considered.
  \<^item> A match on a class change, when \<open>performActions\<close> returns, disconnects
    the \<^verbatim>\<open>window-created\<close> subscription and the class-change subscription of
    that window, and removes the 10-second timer.
  \<^item> A 5-second timer that fires disconnects its class-change subscription
    and is gone; the \<^verbatim>\<open>window-created\<close> subscription and the 10-second
    timer stay as they were.
  \<^item> The 10-second timer, when it fires, disconnects the
    \<^verbatim>\<open>window-created\<close> subscription and is gone.
  \<^item> After any sequence of events, once every timer that is still pending
    has fired, no subscription and no timer of the watch is left.
\<close>

theorem launchHere_releases:
  "(handlerConnected lw \<and> classInstance win = toLowerCase (appId lw)
      \<and> maxKey lw < creationOrderKey sh win \<and> performActions sh (path lw) win = Inr ts
    \<longrightarrow> \<not> handlerConnected (deliver lw (WindowCreated sh win))
       \<and> \<not> timeoutPending (deliver lw (WindowCreated sh win))
       \<and> performed (deliver lw (WindowCreated sh win)) = performed lw @ [handle win]
       \<and> (\<forall>sh2 win2. deliver (deliver lw (WindowCreated sh win)) (WindowCreated sh2 win2)
                         = deliver lw (WindowCreated sh win)))
   \<and> ((n, handle win) \<in> set (notifyConnected lw) \<and> classInstance win = toLowerCase (appId lw)
      \<and> performActions sh (path lw) win = Inr ts
    \<longrightarrow> \<not> handlerConnected (deliver lw (WmClassChanged sh win))
       \<and> \<not> timeoutPending (deliver lw (WmClassChanged sh win))
       \<and> n \<notin> fst ` set (notifyConnected (deliver lw (WmClassChanged sh win))))
   \<and> (n \<in> set (subTimeouts lw)
    \<longrightarrow> n \<notin> fst ` set (notifyConnected (deliver lw (SubTimeout n)))
       \<and> n \<notin> set (subTimeouts (deliver lw (SubTimeout n)))
       \<and> handlerConnected (deliver lw (SubTimeout n)) = handlerConnected lw
       \<and> timeoutPending (deliver lw (SubTimeout n)) = timeoutPending lw)
   \<and> (timeoutPending lw
    \<longrightarrow> \<not> handlerConnected (deliver lw OuterTimeout)
       \<and> \<not> timeoutPending (deliver lw OuterTimeout))
   \<and> (launchHere sh0 path0 appId0 = Inr (True, Some lw0)
    \<longrightarrow> (\<forall>evs. released (runEvents (runEvents lw0 evs) (pendingTimers (runEvents lw0 evs)))))"
proof (intro conjI impI allI)
  assume a: "handlerConnected lw \<and> classInstance win = toLowerCase (appId lw)
      \<and> maxKey lw < creationOrderKey sh win \<and> performActions sh (path lw) win = Inr ts"
  then have d: "deliver lw (WindowCreated sh win)
      = lw \<lparr> performed := performed lw @ [handle win],
             resizeTimeouts := resizeTimeouts lw @ ts,
             handlerConnected := False, timeoutPending := False \<rparr>"
    by (simp add: onWindowCreated_match)
  show "\<not> handlerConnected (deliver lw (WindowCreated sh win))"
    "\<not> timeoutPending (deliver lw (WindowCreated sh win))"
    "performed (deliver lw (WindowCreated sh win)) = performed lw @ [handle win]"
    unfolding d by simp_all
  show "deliver (deliver lw (WindowCreated sh win)) (WindowCreated sh2 win2)
          = deliver lw (WindowCreated sh win)" for sh2 win2
    unfolding d by simp
next
  assume b: "(n, handle win) \<in> set (notifyConnected lw) \<and> classInstance win = toLowerCase (appId lw)
      \<and> performActions sh (path lw) win = Inr ts"
  define ns where "ns = map fst (filter (\<lambda>(n, h). h = handle win) (notifyConnected lw))"
  define f where
    "f = (\<lambda>s n. if n \<in> set (map fst (notifyConnected s)) then onWmClass sh win n s else s)"
  have d: "deliver lw (WmClassChanged sh win) = foldl f lw ns"
    unfolding deliver.simps ns_def f_def ..
  from b have n: "n \<in> set ns"
    unfolding ns_def by force
  then have ne: "ns \<noteq> []" by auto
  have sub: "set ns \<subseteq> fst ` set (notifyConnected lw)"
    unfolding ns_def by force
  from b have c: "classInstance win = toLowerCase (appId lw)"
    and p: "performActions sh (path lw) win = Inr ts"
    by simp_all
  note m = foldl_onWmClass_match [OF c p, of ns, folded f_def]
  show "\<not> handlerConnected (deliver lw (WmClassChanged sh win))"
    "\<not> timeoutPending (deliver lw (WmClassChanged sh win))"
    unfolding d using m(2) [OF ne sub] by simp_all
  show "n \<notin> fst ` set (notifyConnected (deliver lw (WmClassChanged sh win)))"
    unfolding d using m(1) n by blast
next
  assume "n \<in> set (subTimeouts lw)"
  then show "n \<notin> fst ` set (notifyConnected (deliver lw (SubTimeout n)))"
    "n \<notin> set (subTimeouts (deliver lw (SubTimeout n)))"
    "handlerConnected (deliver lw (SubTimeout n)) = handlerConnected lw"
    "timeoutPending (deliver lw (SubTimeout n)) = timeoutPending lw"
    by (auto simp: disconnectNotify_def)
next
  assume "timeoutPending lw"
  then show "\<not> handlerConnected (deliver lw OuterTimeout)"
    "\<not> timeoutPending (deliver lw OuterTimeout)"
    by simp_all
next
  fix evs
  assume "launchHere sh0 path0 appId0 = Inr (True, Some lw0)"
  then have "watchInv lw0" by (rule launchHere_initial)
  then have "watchInv (runEvents lw0 evs)" by (rule watchInv_runEvents)
  then show "released (runEvents (runEvents lw0 evs) (pendingTimers (runEvents lw0 evs)))"
    by (rule fire_pendingTimers)
qed

text \<open>The theorem on the watch of a launch beside windows with order keys 1,
  2, 3: a match at creation, a match on a class change, a 5-second timeout,
  the 10-second timeout, and the firing of all pending timers after a match.\<close>

theorem launchHere_releases_witness:
  "\<not> handlerConnected
        (deliver sampleWatch (WindowCreated (sampleShell [] None) (sampleWindow 6 ''X'' 0)))
   \<and> \<not> timeoutPending
        (deliver sampleWatch (WindowCreated (sampleShell [] None) (sampleWindow 6 ''X'' 0)))
   \<and> 0 \<notin> fst ` set (notifyConnected
        (deliver (deliver sampleWatch (WindowCreated (sampleShell [] None) (sampleWindow 5 ''Y'' 0)))
           (WmClassChanged (sampleShell [] None) (sampleWindow 5 ''X'' 0))))
   \<and> 0 \<notin> set (subTimeouts
        (deliver (deliver sampleWatch (WindowCreated (sampleShell [] None) (sampleWindow 5 ''Y'' 0)))
           (SubTimeout 0)))
   \<and> \<not> handlerConnected (deliver sampleWatch OuterTimeout)
   \<and> released
        (runEvents
           (runEvents sampleWatch
              [WindowCreated (sampleShell [] None) (sampleWindow 5 ''Y'' 0),
               WindowCreated (sampleShell [] None) (sampleWindow 6 ''X'' 0)])
           (pendingTimers
              (runEvents sampleWatch
                 [WindowCreated (sampleShell [] None) (sampleWindow 5 ''Y'' 0),
                  WindowCreated (sampleShell [] None) (sampleWindow 6 ''X'' 0)])))"
proof -
  define E where "E = sampleShell [] None"
  define S where
    "S = sampleShell [sampleWindow 1 ''A'' 0, sampleWindow 2 ''A'' 0, sampleWindow 3 ''B'' 0] None"
  define lw1 where "lw1 = deliver sampleWatch (WindowCreated E (sampleWindow 5 ''Y'' 0))"
  have lw1: "lw1 = sampleWatch \<lparr> notifyConnected := [(0, 5)], subTimeouts := [0], nextId := 1 \<rparr>"
    by (simp add: lw1_def E_def sampleWatch_def launch_eval sample_eval)
  note t0 = launchHere_releases [of sampleWatch "sampleWindow 6 ''X'' 0" E "[]" 0 S "''xterm''"
      "''X.X''" sampleWatch]
  note t1 = launchHere_releases [of lw1 "sampleWindow 5 ''X'' 0" E "[]" 0 S "''xterm''"
      "''X.X''" sampleWatch]
  have a: "handlerConnected sampleWatch
      \<and> classInstance (sampleWindow 6 ''X'' 0) = toLowerCase (appId sampleWatch)
      \<and> maxKey sampleWatch < creationOrderKey E (sampleWindow 6 ''X'' 0)
      \<and> performActions E (path sampleWatch) (sampleWindow 6 ''X'' 0) = Inr []"
    by (simp add: sampleWatch_def E_def launch_eval sample_eval)
  from t0 a have 1: "\<not> handlerConnected (deliver sampleWatch (WindowCreated E (sampleWindow 6 ''X'' 0)))
      \<and> \<not> timeoutPending (deliver sampleWatch (WindowCreated E (sampleWindow 6 ''X'' 0)))"
    by blast
  have b: "(0, handle (sampleWindow 5 ''X'' 0)) \<in> set (notifyConnected lw1)
      \<and> classInstance (sampleWindow 5 ''X'' 0) = toLowerCase (appId lw1)
      \<and> performActions E (path lw1) (sampleWindow 5 ''X'' 0) = Inr []"
    by (simp add: lw1 sampleWatch_def E_def launch_eval sample_eval)
  from t1 b have 2: "0 \<notin> fst ` set (notifyConnected
      (deliver lw1 (WmClassChanged E (sampleWindow 5 ''X'' 0))))"
    by blast
  have c: "0 \<in> set (subTimeouts lw1)"
    by (simp add: lw1)
  from t1 c have 3: "0 \<notin> set (subTimeouts (deliver lw1 (SubTimeout 0)))"
    by blast
  have d: "timeoutPending sampleWatch"
    by (simp add: sampleWatch_def)
  from t0 d have 4: "\<not> handlerConnected (deliver sampleWatch OuterTimeout)"
    by blast
  have l: "launchHere S ''xterm'' ''X.X'' = Inr (True, Some sampleWatch)"
    by (simp add: S_def sampleWatch_def launch_eval sample_eval)
  from t0 l have "\<forall>evs. released (runEvents (runEvents sampleWatch evs)
      (pendingTimers (runEvents sampleWatch evs)))"
    by blast
  then have 5: "released
        (runEvents
           (runEvents sampleWatch
              [WindowCreated E (sampleWindow 5 ''Y'' 0), WindowCreated E (sampleWindow 6 ''X'' 0)])
           (pendingTimers
              (runEvents sampleWatch
                 [WindowCreated E (sampleWindow 5 ''Y'' 0),
                  WindowCreated E (sampleWindow 6 ''X'' 0)])))"
    by blast
  from 1 2 3 4 5 show ?thesis
    unfolding lw1_def E_def by blast
qed

text \<open>
  C7 as stated fails: a window of another class is created, then the launched
  window. The match is terminal, the \<^verbatim>\<open>window-created\<close> subscription and
  the 10-second timer are released, and the class-change subscription of the
  first window and its 5-second timer are still there. When the class of the
  first window changes to the expected one before that timer fires, it is
  treated as a match as well. And a match on a class change leaves the
  5-second timer of that window pending.
\<close>

theorem launchHere_survivors_counterexample:
  "launchHere
       (sampleShell [sampleWindow 1 ''A'' 0, sampleWindow 2 ''A'' 0, sampleWindow 3 ''B'' 0] None)
       ''xterm'' ''X.X''
     = Inr (True, Some sampleWatch)
   \<and> runEvents sampleWatch
         [WindowCreated (sampleShell [] None) (sampleWindow 5 ''Y'' 0),
          WindowCreated (sampleShell [] None) (sampleWindow 6 ''X'' 0)]
       = \<lparr> maxKey = 3, path = ''xterm'', appId = ''X.X'', handlerConnected = False,
           timeoutPending = False, notifyConnected = [(0, 5)], subTimeouts = [0],
           resizeTimeouts = [], nextId = 1, performed = [6] \<rparr>
   \<and> performed
         (runEvents sampleWatch
            [WindowCreated (sampleShell [] None) (sampleWindow 5 ''Y'' 0),
             WindowCreated (sampleShell [] None) (sampleWindow 6 ''X'' 0),
             WmClassChanged (sampleShell [] None) (sampleWindow 5 ''X'' 0)]) = [6, 5]
   \<and> subTimeouts
         (runEvents sampleWatch
            [WindowCreated (sampleShell [] None) (sampleWindow 5 ''Y'' 0),
             WmClassChanged (sampleShell [] None) (sampleWindow 5 ''X'' 0)]) = [0]"
  by (simp add: sampleWatch_def launch_eval sample_eval)

section \<open>Claim C8: exceptions\<close>

text \<open>
  C8 fails on the code for \<open>LaunchHere\<close>. \<open>_launchHere\<close> takes its snapshot
  outside any \<^verbatim>\<open>try\<close>; when the enumeration of the window actors raises,
  the exception leaves the operation. Every other operation that enumerates
  the windows catches it and returns false, in the same state.
\<close>

theorem launchHere_escapes:
  "launchHere ((sampleShell [] None) \<lparr> get_window_actors := None \<rparr>) ''xterm'' ''X.X''
     = Inl Thrown
   \<and> activateWindowById ((sampleShell [] None) \<lparr> get_window_actors := None \<rparr>) ''0x1''
     = (False, [])
   \<and> resizeWindowById ((sampleShell [] None) \<lparr> get_window_actors := None \<rparr>) ''0x1'' 800 600
     = (False, [])
   \<and> focusNextSameAppWindow
         ((sampleShell [] (Some (sampleWindow 1 ''A'' 0))) \<lparr> get_window_actors := None \<rparr>)
     = (False, [])
   \<and> focusNextOtherAppWindow
         ((sampleShell [] (Some (sampleWindow 1 ''A'' 0))) \<lparr> get_window_actors := None \<rparr>)
     = (False, [])
   \<and> focusNextAnyAppWindow
         ((sampleShell [] (Some (sampleWindow 1 ''A'' 0))) \<lparr> get_window_actors := None \<rparr>)
     = (False, [])"
  by (simp add: launchHere_def resizeWindowById_def focusNextSameAppWindow_def
      focusNextOtherAppWindow_def focusNextAnyAppWindow_def focusRelativeSameAppWindow_def
      focusRelativeOtherAppWindow_def focusRelativeAnyAppWindow_def sample_eval)

section \<open>Claim C9: resizing\<close>

lemma toInt32_id: "- (2 ^ 31) \<le> x \<Longrightarrow> x < 2 ^ 31 \<Longrightarrow> toInt32 x = x"
  by (simp add: toInt32_def)

text \<open>
  C9. The width and height arrive as 32-bit integers.
  \<^item> When \<open>width > 0\<close> and \<open>height > 0\<close> do not both hold,
    \<open>_resizeWindowById\<close> returns false and makes no call on the window system;
    so for width 0 and for height \<open>-5\<close>.
  \<^item> When both hold, the window is found and it has the move-resize
    primitive, the operation un-minimises the window if needed and then calls
    \<open>move_resize_frame\<close> with the user-operation flag set, the \<open>(x, y)\<close> of
    the window's current frame rectangle, or \<open>(0, 0)\<close> when that is not
    available, and the new width and height; it returns true unless the call
    raises.
\<close>

theorem resizeWindowById_validates:
  "(- (2 ^ 31) \<le> width \<and> width < 2 ^ 31 \<and> - (2 ^ 31) \<le> height \<and> height < 2 ^ 31
    \<longrightarrow> (\<not> (0 < width \<and> 0 < height)
           \<longrightarrow> resizeWindowById sh ident0 width height = (False, []))
       \<and> (0 < width \<and> 0 < height \<and> findWindowById sh ident0 = Inr (Some w)
            \<and> move_resize_frame w \<noteq> Absent
           \<longrightarrow> resizeWindowById sh ident0 width height
                 = (move_resize_frame w = Returns (),
                    ensureUnminimized w
                    @ [MoveResizeFrame (handle w) True
                         (case get_frame_rect w of Returns (Some (x, y)) \<Rightarrow> x | _ \<Rightarrow> 0)
                         (case get_frame_rect w of Returns (Some (x, y)) \<Rightarrow> y | _ \<Rightarrow> 0)
                         width height])))
   \<and> resizeWindowById (sampleShell [sampleWindow 1 ''A'' 0] None) ''0x1'' 0 600 = (False, [])
   \<and> resizeWindowById (sampleShell [sampleWindow 1 ''A'' 0] None) ''0x1'' 800 (- 5) = (False, [])"
proof (intro conjI impI)
  assume r: "- (2 ^ 31) \<le> width \<and> width < 2 ^ 31 \<and> - (2 ^ 31) \<le> height \<and> height < 2 ^ 31"
  then have i: "toInt32 width = width" "toInt32 height = height"
    by (simp_all add: toInt32_id)
  {
    assume "\<not> (0 < width \<and> 0 < height)"
    then show "resizeWindowById sh ident0 width height = (False, [])"
      unfolding resizeWindowById_def Let_def i
      by (auto split: sum.splits option.splits)
  }
  {
    assume "0 < width \<and> 0 < height \<and> findWindowById sh ident0 = Inr (Some w)
            \<and> move_resize_frame w \<noteq> Absent"
    then show "resizeWindowById sh ident0 width height
                 = (move_resize_frame w = Returns (),
                    ensureUnminimized w
                    @ [MoveResizeFrame (handle w) True
                         (case get_frame_rect w of Returns (Some (x, y)) \<Rightarrow> x | _ \<Rightarrow> 0)
                         (case get_frame_rect w of Returns (Some (x, y)) \<Rightarrow> y | _ \<Rightarrow> 0)
                         width height])"
      unfolding resizeWindowById_def Let_def i
      by (auto split: probe.splits option.splits)
  }
next
  show "resizeWindowById (sampleShell [sampleWindow 1 ''A'' 0] None) ''0x1'' 0 600 = (False, [])"
    by (simp add: resizeWindowById_def toInt32_def sample_eval)
next
  show "resizeWindowById (sampleShell [sampleWindow 1 ''A'' 0] None) ''0x1'' 800 (- 5) = (False, [])"
    by (simp add: resizeWindowById_def toInt32_def sample_eval)
qed

text \<open>The theorem for a window at \<open>(10, 20)\<close>, for a minimised window
  without frame rectangle, and for a negative width.\<close>

theorem resizeWindowById_validates_witness:
  "resizeWindowById (sampleShell [sampleWindow 1 ''A'' 0] None) ''0x1'' 800 600
     = (True, [MoveResizeFrame 1 True 10 20 800 600])
   \<and> resizeWindowById
         (sampleShell [(sampleWindow 1 ''A'' 0) \<lparr> get_frame_rect := Absent, minimized := True \<rparr>] None)
         ''0x1'' 800 600
       = (True, [Unminimize 1, MoveResizeFrame 1 True 0 0 800 600])
   \<and> resizeWindowById (sampleShell [sampleWindow 1 ''A'' 0] None) ''0x1'' (- 3) 600 = (False, [])"
proof -
  define S where "S = sampleShell [sampleWindow 1 ''A'' 0] None"
  define w' where "w' = (sampleWindow 1 ''A'' 0) \<lparr> get_frame_rect := Absent, minimized := True \<rparr>"
  define T where "T = sampleShell [w'] None"
  have r: "- (2 ^ 31) \<le> (800::int) \<and> (800::int) < 2 ^ 31 \<and> - (2 ^ 31) \<le> (600::int) \<and> (600::int) < 2 ^ 31"
    "- (2 ^ 31) \<le> (- 3::int) \<and> (- 3::int) < 2 ^ 31 \<and> - (2 ^ 31) \<le> (600::int) \<and> (600::int) < 2 ^ 31"
    by simp_all
  have p: "0 < (800::int) \<and> 0 < (600::int)" "\<not> (0 < (- 3::int) \<and> 0 < (600::int))"
    by simp_all
  have f: "findWindowById S ''0x1'' = Inr (Some (sampleWindow 1 ''A'' 0))"
    by (simp add: S_def sample_eval)
  have m: "move_resize_frame (sampleWindow 1 ''A'' 0) \<noteq> Absent"
    by (simp add: sampleWindow_def)
  have "resizeWindowById S ''0x1'' 800 600
     = (move_resize_frame (sampleWindow 1 ''A'' 0) = Returns (),
        ensureUnminimized (sampleWindow 1 ''A'' 0)
        @ [MoveResizeFrame (handle (sampleWindow 1 ''A'' 0)) True
             (case get_frame_rect (sampleWindow 1 ''A'' 0) of Returns (Some (x, y)) \<Rightarrow> x | _ \<Rightarrow> 0)
             (case get_frame_rect (sampleWindow 1 ''A'' 0) of Returns (Some (x, y)) \<Rightarrow> y | _ \<Rightarrow> 0)
             800 600])"
    using resizeWindowById_validates [of 800 600 S "''0x1''" "sampleWindow 1 ''A'' 0"] r(1) p(1) f m
    by blast
  then have 1: "resizeWindowById S ''0x1'' 800 600 = (True, [MoveResizeFrame 1 True 10 20 800 600])"
    by (simp add: sampleWindow_def ensureUnminimized_def)
  have g: "findWindowById T ''0x1'' = Inr (Some w')"
    by (simp add: T_def w'_def sample_eval)
  have n: "move_resize_frame w' \<noteq> Absent"
    by (simp add: w'_def sampleWindow_def)
  have "resizeWindowById T ''0x1'' 800 600
     = (move_resize_frame w' = Returns (),
        ensureUnminimized w'
        @ [MoveResizeFrame (handle w') True
             (case get_frame_rect w' of Returns (Some (x, y)) \<Rightarrow> x | _ \<Rightarrow> 0)
             (case get_frame_rect w' of Returns (Some (x, y)) \<Rightarrow> y | _ \<Rightarrow> 0)
             800 600])"
    using resizeWindowById_validates [of 800 600 T "''0x1''" w'] r(1) p(1) g n
    by blast
  then have 2: "resizeWindowById T ''0x1'' 800 600
      = (True, [Unminimize 1, MoveResizeFrame 1 True 0 0 800 600])"
    by (simp add: w'_def sampleWindow_def ensureUnminimized_def)
  have 3: "resizeWindowById S ''0x1'' (- 3) 600 = (False, [])"
    using resizeWindowById_validates [of "- 3" 600 S "''0x1''" "sampleWindow 1 ''A'' 0"] r(2) p(2)
    by blast
  from 1 2 3 show ?thesis
    unfolding S_def T_def w'_def by blast
qed

section \<open>Claim C10: an active window outside the registry\<close>

lemma toHexId_form: "\<exists>n. toHexId sh w = ''0x'' @ toHex n"
  unfolding toHexId_def Let_def
  by (auto split: option.splits probe.splits if_splits)

lemma toHexId_not_Nil: "toHexId sh w \<noteq> []"
  using toHexId_form [of sh w] by auto

lemma toLowerCase_toHexId: "toLowerCase (toHexId sh w) = toHexId sh w"
proof -
  obtain n where n: "toHexId sh w = ''0x'' @ toHex n" using toHexId_form by blast
  have "toLowerCase (''0x'' @ toHex n) = ''0x'' @ toLowerCase (toHex n)"
    by (simp add: toLowerCase_def toLowerChar_def)
  then show ?thesis by (simp add: n toLowerCase_toHex)
qed

lemma normalizeIdString_toHexId: "normalizeIdString (toHexId sh w) = Some (toHexId sh w)"
proof -
  obtain n where n: "toHexId sh w = ''0x'' @ toHex n" using toHexId_form by blast
  show ?thesis unfolding n by (rule normalizeIdString_toHex)
qed

lemma findWindowById_toHexId:
  assumes "get_window_actors sh = Some actors"
  shows "findWindowById sh (toHexId sh fw)
           = Inr (find (\<lambda>w. toHexId sh w = toHexId sh fw) (eligible actors))"
  using assms
  by (simp add: findWindowById_def normalizeIdString_toHexId toLowerCase_toHexId)

lemma hasId_itemOf: "hasId (toHexId sh fw) (itemOf sh w) \<longleftrightarrow> toHexId sh w = toHexId sh fw"
  by (simp add: hasId_def itemOf_def toLowerCase_toHexId)

lemma findWindowById_absent:
  assumes l: "listWindowsItems sh = Inr all"
    and no: "\<forall>it \<in> set all. \<not> hasId (toHexId sh fw) it"
  shows "findWindowById sh (toHexId sh fw) = Inr None"
proof -
  from l obtain actors where a: "get_window_actors sh = Some actors"
    and all: "all = sortBy (compareItems (localeCompare sh)) (map (itemOf sh) (eligible actors))"
    by (auto simp: listWindowsItems_def split: option.splits)
  have "set all = itemOf sh ` set (eligible actors)"
    by (simp add: all set_sortBy)
  with no have "\<forall>w \<in> set (eligible actors). toHexId sh w \<noteq> toHexId sh fw"
    by (auto simp: hasId_itemOf)
  then have "find (\<lambda>w. toHexId sh w = toHexId sh fw) (eligible actors) = None"
    by (simp add: find_None_iff)
  then show ?thesis by (simp add: findWindowById_toHexId [OF a])
qed

lemma activeWindowId_focus:
  "get_focus_window sh = Returns (Some fw) \<Longrightarrow> activeWindowId sh = toHexId sh fw"
  by (simp add: activeWindowId_def)

lemma findIndex_None: "\<forall>x \<in> set xs. \<not> p x \<Longrightarrow> findIndex p xs = None"
  by (induction xs) simp_all

lemma find_cong_set: "\<forall>x \<in> set xs. p x = q x \<Longrightarrow> find p xs = find q xs"
  by (induction xs) simp_all

lemma specCircuit_subset:
  assumes "xs \<noteq> []"
  shows "set (specCircuit xs idx delta) \<subseteq> set xs"
proof -
  have "nat (a mod int (length xs)) < length xs" for a
  proof -
    have "0 < int (length xs)" using assms by simp
    then have "0 \<le> a mod int (length xs)" "a mod int (length xs) < int (length xs)"
      by (simp_all only: pos_mod_sign pos_mod_bound)
    then show ?thesis by linarith
  qed
  then have "xs ! nat (a mod int (length xs)) \<in> set xs" for a
    by (rule nth_mem)
  then show ?thesis
    unfolding specCircuit_def by auto
qed

text \<open>
  C10, as the code has it. \<open>_activeWindowId\<close> takes the id of the focus
  window without asking whether it is a tasklist window, so the id is never
  empty when there is a focus window, also when no window of the listing has
  it. In that case:
  \<^item> the same-class and the other-class operations return false and make no
    call, since neither finds the class of the active window;
  \<^item> the any-class operation does not fail on the missing window: it starts
    from one before the first window for a forward step and from the first for
    a backward step, and activates the first window of that circuit outside
    the denylisted class.
\<close>

theorem activeWindowId_unfiltered:
  "(get_focus_window sh = Returns (Some fw)
    \<longrightarrow> activeWindowId sh = toHexId sh fw \<and> activeWindowId sh \<noteq> [])
   \<and> (get_focus_window sh = Returns (Some fw) \<and> listWindowsItems sh = Inr all
        \<and> (\<forall>it \<in> set all. \<not> hasId (activeWindowId sh) it)
    \<longrightarrow> focusRelativeSameAppWindow sh delta = (False, [])
       \<and> focusRelativeOtherAppWindow sh delta = (False, [])
       \<and> (\<forall>inWs. inWs = filter (onWorkspace (activeWorkspaceIndex sh)) all \<and> inWs \<noteq> []
            \<longrightarrow> startIndex (activeWindowId sh) delta inWs = (if delta > 0 then - 1 else 0)
               \<and> focusRelativeAnyAppWindow sh delta
                   = (case find (\<lambda>c. cls c \<noteq> COPYQ_CLS)
                                (specCircuit inWs (if delta > 0 then - 1 else 0) delta) of
                        Some cand \<Rightarrow> activateWindowById sh (ident cand)
                      | None \<Rightarrow> (False, []))))"
proof (intro conjI impI allI)
  assume "get_focus_window sh = Returns (Some fw)"
  then show "activeWindowId sh = toHexId sh fw" "activeWindowId sh \<noteq> []"
    by (simp_all add: activeWindowId_focus toHexId_not_Nil)
next
  assume h: "get_focus_window sh = Returns (Some fw) \<and> listWindowsItems sh = Inr all
        \<and> (\<forall>it \<in> set all. \<not> hasId (activeWindowId sh) it)"
  then have a: "activeWindowId sh = toHexId sh fw" and ne: "activeWindowId sh \<noteq> []"
    by (simp_all add: activeWindowId_focus toHexId_not_Nil)
  from h have l: "listWindowsItems sh = Inr all"
    and no: "\<forall>it \<in> set all. \<not> hasId (activeWindowId sh) it"
    by simp_all
  have f: "findWindowById sh (activeWindowId sh) = Inr None"
    using findWindowById_absent [OF l, of fw] no by (simp add: a)
  have g: "find (hasId (activeWindowId sh)) all = None"
    using no by (simp add: find_None_iff)
  show "focusRelativeSameAppWindow sh delta = (False, [])"
    unfolding focusRelativeSameAppWindow_def Let_def
    using ne by (simp add: f l g truthy_def)
  show "focusRelativeOtherAppWindow sh delta = (False, [])"
    unfolding focusRelativeOtherAppWindow_def Let_def
    using ne by (simp add: f l g)
  {
    fix inWs
    assume i: "inWs = filter (onWorkspace (activeWorkspaceIndex sh)) all \<and> inWs \<noteq> []"
    then have no': "\<forall>it \<in> set inWs. \<not> hasId (activeWindowId sh) it"
      using no by simp
    then show s: "startIndex (activeWindowId sh) delta inWs = (if delta > 0 then - 1 else 0)"
      by (simp add: startIndex_def findIndex_None)
    have "\<forall>c \<in> set (specCircuit inWs (if delta > 0 then - 1 else 0) delta).
            (\<not> (cls c = COPYQ_CLS \<or> hasId (activeWindowId sh) c)) = (cls c \<noteq> COPYQ_CLS)"
      using no' specCircuit_subset [of inWs] i by blast
    then have e: "find (\<lambda>c. \<not> (cls c = COPYQ_CLS \<or> hasId (activeWindowId sh) c))
               (specCircuit inWs (if delta > 0 then - 1 else 0) delta)
            = find (\<lambda>c. cls c \<noteq> COPYQ_CLS)
               (specCircuit inWs (if delta > 0 then - 1 else 0) delta)"
      by (rule find_cong_set)
    show "focusRelativeAnyAppWindow sh delta
                   = (case find (\<lambda>c. cls c \<noteq> COPYQ_CLS)
                                (specCircuit inWs (if delta > 0 then - 1 else 0) delta) of
                        Some cand \<Rightarrow> activateWindowById sh (ident cand)
                      | None \<Rightarrow> (False, []))"
    proof -
      from i have i1: "inWs = filter (onWorkspace (activeWorkspaceIndex sh)) all"
        and i2: "inWs \<noteq> []"
        by blast+
      have "focusRelativeAnyAppWindow sh delta
                   = (case find (\<lambda>c. \<not> (cls c = COPYQ_CLS \<or> hasId (activeWindowId sh) c))
                                (specCircuit inWs (if delta > 0 then - 1 else 0) delta) of
                        Some cand \<Rightarrow> activateWindowById sh (ident cand)
                      | None \<Rightarrow> (False, []))"
        by (rule focusRelativeAnyAppWindow_target [OF ne l i1 i2 s [symmetric]])
      then show ?thesis unfolding e .
    qed
  }
qed

text \<open>The theorem on a shell whose focus window is a dock, beside one
  application window.\<close>

theorem activeWindowId_unfiltered_witness:
  "activeWindowId (sampleShell [sampleWindow 1 ''A'' 0, dockWindow] (Some dockWindow)) = ''0x9''
   \<and> listWindowsItems (sampleShell [sampleWindow 1 ''A'' 0, dockWindow] (Some dockWindow))
       = Inr [\<lparr> key = 1, ident = ''0x1'', desk = 0, cls = ''a.a'', title = ''A'' \<rparr>]
   \<and> focusRelativeAnyAppWindow
         (sampleShell [sampleWindow 1 ''A'' 0, dockWindow] (Some dockWindow)) 1
       = (True, [Activate 1])"
proof -
  define S where "S = sampleShell [sampleWindow 1 ''A'' 0, dockWindow] (Some dockWindow)"
  define i1 where "i1 = \<lparr> key = 1, ident = ''0x1'', desk = 0, cls = ''a.a'', title = ''A'' \<rparr>"
  note t = activeWindowId_unfiltered [of S dockWindow "[i1]" 1]
  have fw: "get_focus_window S = Returns (Some dockWindow)"
    by (simp add: S_def sampleShell_def)
  have a: "activeWindowId S = ''0x9''"
    by (simp add: S_def dockWindow_def sample_eval)
  have l: "listWindowsItems S = Inr [i1]"
    by (simp add: S_def i1_def dockWindow_def sample_eval)
  have no: "\<forall>it \<in> set [i1]. \<not> hasId (activeWindowId S) it"
    unfolding a by (simp add: i1_def sample_eval)
  have fl: "[i1] = filter (onWorkspace (activeWorkspaceIndex S)) [i1] \<and> [i1] \<noteq> []"
    by (simp add: S_def i1_def sample_eval)
  from t fw l no fl have "focusRelativeAnyAppWindow S 1
      = (case find (\<lambda>c. cls c \<noteq> COPYQ_CLS)
                   (specCircuit [i1] (if (1::int) > 0 then - 1 else 0) 1) of
           Some cand \<Rightarrow> activateWindowById S (ident cand)
         | None \<Rightarrow> (False, []))"
    by blast
  then have "focusRelativeAnyAppWindow S 1 = activateWindowById S ''0x1''"
    by (simp add: specCircuit_single i1_def COPYQ_CLS_def)
  moreover have "activateWindowById S ''0x1'' = (True, [Activate 1])"
    by (simp add: S_def dockWindow_def sample_eval)
  ultimately have 3: "focusRelativeAnyAppWindow S 1 = (True, [Activate 1])"
    by simp
  from a l 3 show ?thesis
    unfolding S_def i1_def by blast
qed

text \<open>
  C10 as stated fails for two of the three policies: with the dock focused,
  its id \<^verbatim>\<open>0x9\<close> is not in the listing, and the same-class and other-class
  operations fail in both directions.
\<close>

theorem focus_cycle_missing_active_counterexample:
  "activeWindowId (sampleShell [sampleWindow 1 ''A'' 0, dockWindow] (Some dockWindow)) = ''0x9''
   \<and> listWindowsItems (sampleShell [sampleWindow 1 ''A'' 0, dockWindow] (Some dockWindow))
       = Inr [\<lparr> key = 1, ident = ''0x1'', desk = 0, cls = ''a.a'', title = ''A'' \<rparr>]
   \<and> focusNextSameAppWindow
         (sampleShell [sampleWindow 1 ''A'' 0, dockWindow] (Some dockWindow)) = (False, [])
   \<and> focusPrevSameAppWindow
         (sampleShell [sampleWindow 1 ''A'' 0, dockWindow] (Some dockWindow)) = (False, [])
   \<and> focusNextOtherAppWindow
         (sampleShell [sampleWindow 1 ''A'' 0, dockWindow] (Some dockWindow)) = (False, [])
   \<and> focusPrevOtherAppWindow
         (sampleShell [sampleWindow 1 ''A'' 0, dockWindow] (Some dockWindow)) = (False, [])"
  by (simp add: focusNextSameAppWindow_def focusPrevSameAppWindow_def
      focusNextOtherAppWindow_def focusPrevOtherAppWindow_def
      focusRelativeSameAppWindow_def focusRelativeOtherAppWindow_def dockWindow_def sample_eval)

end
